theory Spec2Isabelle
  imports Main "HOL-Library.Multiset"
begin

section \<open>Thrown values\<close>

text \<open>
  A thrown value is an \<^verbatim>\<open>Error\<close> with its message, the \<^verbatim>\<open>TypeError\<close> of reading a property
  of \<^verbatim>\<open>ctx.page\<close> while it is null (the argument is the property read), or the
  \<^verbatim>\<open>TypeError\<close> of calling a value that is not a function (the argument is the expression
  called).
\<close>

datatype error = Error string | TypeError string | NotAFunction string

fun message :: "error \<Rightarrow> string" where
  "message (Error m) = m"
| "message (TypeError p) =
     ''Cannot read properties of null (reading '' @ [CHR 0x27] @ p @ [CHR 0x27] @ '')''"
| "message (NotAFunction f) = f @ '' is not a function''"

section \<open>Proxy manager (xd-extended-proxy.js)\<close>

text \<open>
  Timestamps are the integer milliseconds of \<^verbatim>\<open>Date.now()\<close>; every operation that reads the
  clock takes the reading as its argument \<open>now\<close>.  Writing the ban file (\<^verbatim>\<open>save\<close>) swallows
  every error and does not change the manager, so it does not appear in the state.

  \<^verbatim>\<open>_failures\<close> and \<^verbatim>\<open>_state.banned\<close> are plain objects.  The maps \<open>failures_map\<close> and \<open>banned\<close>
  hold their own properties; a read \<^verbatim>\<open>obj[key]\<close> of a key that is no own property goes on to
  \<^verbatim>\<open>Object.prototype\<close> and finds a value there for the twelve names below (eleven functions
  and, for \<^verbatim>\<open>__proto__\<close>, the prototype object itself), all of them truthy, none with a
  \<^verbatim>\<open>push\<close> or an \<^verbatim>\<open>expiresAt\<close> property.
\<close>

definition inherited_property :: "string \<Rightarrow> bool" where
  "inherited_property k =
     (k \<in> set [''constructor'', ''__defineGetter__'', ''__defineSetter__'', ''hasOwnProperty'',
                ''__lookupGetter__'', ''__lookupSetter__'', ''isPrototypeOf'',
                ''propertyIsEnumerable'', ''toString'', ''valueOf'', ''__proto__'',
                ''toLocaleString''])"

definition FAIL_THRESHOLD :: nat where
  "FAIL_THRESHOLD = 3"

definition FAIL_WINDOW_MS :: int where
  "FAIL_WINDOW_MS = 60 * 60 * 1000"

definition BAN_DURATION_MS :: int where
  "BAN_DURATION_MS = 12 * 60 * 60 * 1000"

record ban =
  bannedAt :: int
  expiresAt :: int
  failures :: nat

record 'u proxy =
  raw :: string
  parts :: 'u

record proxy_manager =
  allUrls :: "string list"
  index :: nat
  current :: "string option"
  failures_map :: "string \<rightharpoonup> int list"
  banned :: "string \<rightharpoonup> ban"
  lastRotation :: int

text \<open>
  \<^verbatim>\<open>_isBanned(url)\<close>: a record whose expiry has been reached is deleted and is no ban.
  Without a record of its own, an ordinary address is not banned; for an inherited name the
  read finds the inherited value, \<^verbatim>\<open>Date.now() >= undefined\<close> is false, and the answer is
  true with nothing deleted.
\<close>

definition isBanned :: "proxy_manager \<Rightarrow> string \<Rightarrow> int \<Rightarrow> bool \<times> proxy_manager" where
  "isBanned pm url now =
     (case banned pm url of
        None \<Rightarrow> (inherited_property url, pm)
      | Some b \<Rightarrow>
          if now \<ge> expiresAt b then (False, pm\<lparr>banned := (banned pm)(url := None)\<rparr>)
          else (True, pm))"

text \<open>
  \<^verbatim>\<open>_parseProxy(raw)\<close>: the platform's \<^verbatim>\<open>new URL(raw)\<close> and \<^verbatim>\<open>decodeURIComponent\<close> are the
  parameter \<open>purl\<close>, \<open>None\<close> when either of them throws; the \<^verbatim>\<open>catch\<close> turns that into null.
\<close>

definition parseProxy :: "(string \<Rightarrow> 'u option) \<Rightarrow> string \<Rightarrow> 'u proxy option" where
  "parseProxy purl r = (case purl r of None \<Rightarrow> None | Some u \<Rightarrow> Some \<lparr>raw = r, parts = u\<rparr>)"

text \<open>
  \<^verbatim>\<open>this._allUrls.filter(url => !this._isBanned(url))\<close>: the filter runs \<^verbatim>\<open>_isBanned\<close> on
  every address in order, and each call may delete an expired record.
\<close>

fun filter_available :: "proxy_manager \<Rightarrow> string list \<Rightarrow> int \<Rightarrow> string list \<times> proxy_manager" where
  "filter_available pm [] now = ([], pm)"
| "filter_available pm (u # us) now =
     (case isBanned pm u now of
        (b, pm1) \<Rightarrow>
          (case filter_available pm1 us now of
             (r, pm2) \<Rightarrow> (if b then r else u # r, pm2)))"

definition getNextProxy ::
  "(string \<Rightarrow> 'u option) \<Rightarrow> proxy_manager \<Rightarrow> int \<Rightarrow> 'u proxy option \<times> proxy_manager" where
  "getNextProxy purl pm now =
     (case filter_available pm (allUrls pm) now of
        (available, pm1) \<Rightarrow>
          if available = [] then (None, pm1)
          else
            let i = (index pm1 + 1) mod length available;
                c = available ! i
            in (parseProxy purl c, pm1\<lparr>index := i, current := Some c, lastRotation := now\<rparr>))"

text \<open>
  \<^verbatim>\<open>reportFailure(proxyUrl)\<close>.  For an inherited name without an own entry the read
  \<^verbatim>\<open>this._failures[proxyUrl]\<close> is truthy, no array is stored, and the call of \<^verbatim>\<open>push\<close> throws
  before anything is changed.
\<close>

definition reportFailure ::
  "proxy_manager \<Rightarrow> string \<Rightarrow> int \<Rightarrow> error + bool \<times> proxy_manager" where
  "reportFailure pm proxyUrl now =
     (if proxyUrl = [] then Inr (False, pm)
      else if failures_map pm proxyUrl = None \<and> inherited_property proxyUrl
      then Inl (NotAFunction ''this._failures[proxyUrl].push'')
      else
        let pushed = (case failures_map pm proxyUrl of None \<Rightarrow> [] | Some l \<Rightarrow> l) @ [now];
            kept = filter (\<lambda>ts. now - ts < FAIL_WINDOW_MS) pushed
        in if length kept < FAIL_THRESHOLD
           then Inr (False, pm\<lparr>failures_map := (failures_map pm)(proxyUrl \<mapsto> kept)\<rparr>)
           else Inr (True,
                 pm\<lparr>banned := (banned pm)(proxyUrl \<mapsto>
                        \<lparr>bannedAt = now, expiresAt = now + BAN_DURATION_MS, failures = length kept\<rparr>),
                    failures_map := (failures_map pm)(proxyUrl := None)\<rparr>))"

definition reportSuccess :: "proxy_manager \<Rightarrow> string \<Rightarrow> proxy_manager" where
  "reportSuccess pm proxyUrl =
     (if proxyUrl = [] then pm else pm\<lparr>failures_map := (failures_map pm)(proxyUrl := None)\<rparr>)"

text \<open>
  The failures that count for an address at time \<open>now\<close>, once the new one is recorded: the
  stored timestamps and \<open>now\<close>, those older than the window left out.
\<close>

definition windowed :: "proxy_manager \<Rightarrow> string \<Rightarrow> int \<Rightarrow> int list" where
  "windowed pm url now =
     filter (\<lambda>ts. now - ts < FAIL_WINDOW_MS)
       ((case failures_map pm url of None \<Rightarrow> [] | Some l \<Rightarrow> l) @ [now])"

definition failureCount :: "proxy_manager \<Rightarrow> string \<Rightarrow> nat" where
  "failureCount pm url = (case failures_map pm url of None \<Rightarrow> 0 | Some l \<Rightarrow> length l)"

text \<open>
  An address is left out of the rotation at \<open>now\<close> when it has a ban record whose expiry is
  still ahead, or when it has no record and is an inherited name.
\<close>

definition excluded :: "proxy_manager \<Rightarrow> string \<Rightarrow> int \<Rightarrow> bool" where
  "excluded pm url now =
     (case banned pm url of None \<Rightarrow> inherited_property url | Some b \<Rightarrow> now < expiresAt b)"

subsection \<open>Construction\<close>

text \<open>
  Strings are lists of code units below 256.  \<^verbatim>\<open>String.prototype.trim\<close> removes white space
  and line terminators at both ends; in this range these are the code units
  9 to 13, 32 and 160.
\<close>

definition js_space :: "char \<Rightarrow> bool" where
  "js_space c = (of_char c \<in> {9, 10, 11, 12, 13, 32, 160 :: nat})"

definition trim :: "string \<Rightarrow> string" where
  "trim s = rev (dropWhile js_space (rev (dropWhile js_space s)))"

text \<open>\<^verbatim>\<open>[...new Set(xs)]\<close>: a Set keeps the first insertion of every value, in insertion order.\<close>

definition insertion_order :: "'a list \<Rightarrow> 'a list" where
  "insertion_order xs = fold (\<lambda>x acc. if x \<in> set acc then acc else acc @ [x]) xs []"

text \<open>\<^verbatim>\<open>[arr[i], arr[j]] = [arr[j], arr[i]]\<close>: both reads come before both writes.\<close>

definition swap :: "'a list \<Rightarrow> nat \<Rightarrow> nat \<Rightarrow> 'a list" where
  "swap arr i j = arr[i := arr ! j, j := arr ! i]"

text \<open>
  \<^verbatim>\<open>_shuffle\<close>: the loop runs \<open>i\<close> from \<open>length - 1\<close> down to \<open>1\<close>.  The draw
  \<^verbatim>\<open>Math.floor(Math.random() * (i + 1))\<close> made at index \<open>i\<close> is \<open>rnd i\<close>, a number from \<open>0\<close> to \<open>i\<close>.
\<close>

fun shuffle_from :: "(nat \<Rightarrow> nat) \<Rightarrow> nat \<Rightarrow> 'a list \<Rightarrow> 'a list" where
  "shuffle_from rnd 0 arr = arr"
| "shuffle_from rnd (Suc i) arr = shuffle_from rnd i (swap arr (Suc i) (rnd (Suc i)))"

definition shuffle :: "(nat \<Rightarrow> nat) \<Rightarrow> 'a list \<Rightarrow> 'a list" where
  "shuffle rnd arr = shuffle_from rnd (length arr - 1) arr"

definition draws_in_range :: "(nat \<Rightarrow> nat) \<Rightarrow> nat \<Rightarrow> bool" where
  "draws_in_range rnd n = (\<forall>i. 1 \<le> i \<and> i < n \<longrightarrow> rnd i \<le> i)"

text \<open>
  \<^verbatim>\<open>_load\<close>: \<open>stored\<close> is the state read from the ban file, \<open>None\<close> when the file is missing
  or unreadable; its ban table is \<open>None\<close> when the file has none.  Ban records are those that
  \<open>reportFailure\<close> writes, so their expiry is a number.  Records whose expiry is set and
  reached are dropped.
\<close>

record stored_state =
  stored_banned :: "(string \<rightharpoonup> ban) option"
  stored_lastRotation :: int

definition load :: "stored_state option \<Rightarrow> int \<Rightarrow> (string \<rightharpoonup> ban) \<times> int" where
  "load stored now =
     (case stored of
        None \<Rightarrow> (Map.empty, 0)
      | Some st \<Rightarrow>
          ((\<lambda>url. case (case stored_banned st of None \<Rightarrow> Map.empty | Some m \<Rightarrow> m) url of
                    None \<Rightarrow> None
                  | Some b \<Rightarrow> if expiresAt b \<noteq> 0 \<and> expiresAt b \<le> now then None else Some b),
           stored_lastRotation st))"

text \<open>The constructor, for a configured list of strings.\<close>

definition ProxyManager ::
  "string list \<Rightarrow> stored_state option \<Rightarrow> int \<Rightarrow> (nat \<Rightarrow> nat) \<Rightarrow> proxy_manager" where
  "ProxyManager cfgUrls stored now rnd =
     \<lparr>allUrls = shuffle rnd (insertion_order (filter (\<lambda>v. v \<noteq> []) (map trim cfgUrls))),
      index = 0, current = None, failures_map = Map.empty,
      banned = fst (load stored now), lastRotation = snd (load stored now)\<rparr>"

subsection \<open>The URL constructor's scheme check\<close>

text \<open>
  \<^verbatim>\<open>new URL(raw)\<close> is a platform function.  Called without a base it throws for every input
  that does not start with a scheme: after leading and trailing C0 controls and spaces are
  stripped and tabs and newlines removed, a letter, then letters, digits, \<open>+\<close>, \<open>-\<close> or \<open>.\<close>,
  then a colon.  \<open>URL_scheme_check\<close> models this rejection and nothing else of the parser:
  where it answers \<open>None\<close> the constructor throws.
\<close>

definition ascii_alpha :: "char \<Rightarrow> bool" where
  "ascii_alpha c = (let n = (of_char c :: nat) in (65 \<le> n \<and> n \<le> 90) \<or> (97 \<le> n \<and> n \<le> 122))"

definition ascii_digit :: "char \<Rightarrow> bool" where
  "ascii_digit c = (let n = (of_char c :: nat) in 48 \<le> n \<and> n \<le> 57)"

fun scheme_rest :: "string \<Rightarrow> bool" where
  "scheme_rest [] = False"
| "scheme_rest (c # cs) =
     (if c = CHR '':'' then True
      else if ascii_alpha c \<or> ascii_digit c \<or> c = CHR ''+'' \<or> c = CHR ''-'' \<or> c = CHR ''.''
      then scheme_rest cs else False)"

definition c0_or_space :: "char \<Rightarrow> bool" where
  "c0_or_space c = ((of_char c :: nat) \<le> 32)"

definition has_scheme :: "string \<Rightarrow> bool" where
  "has_scheme s =
     (case filter (\<lambda>c. (of_char c :: nat) \<notin> {9, 10, 13})
             (rev (dropWhile c0_or_space (rev (dropWhile c0_or_space s)))) of
        [] \<Rightarrow> False
      | c # cs \<Rightarrow> ascii_alpha c \<and> scheme_rest cs)"

definition URL_scheme_check :: "string \<Rightarrow> unit option" where
  "URL_scheme_check s = (if has_scheme s then Some () else None)"

subsection \<open>Example pools\<close>

definition pool_two_failures :: proxy_manager where
  "pool_two_failures =
     \<lparr>allUrls = [''http://a.example:8080'', ''http://b.example:8080''], index = 0, current = None,
      failures_map = [''http://a.example:8080'' \<mapsto> [1000, 2000]],
      banned = Map.empty, lastRotation = 0\<rparr>"

definition pool_one_banned :: proxy_manager where
  "pool_one_banned =
     \<lparr>allUrls = [''http://a.example:8080'', ''http://b.example:8080''], index = 0, current = None,
      failures_map = Map.empty,
      banned = [''http://a.example:8080'' \<mapsto> \<lparr>bannedAt = 3000, expiresAt = 43203000, failures = 3\<rparr>],
      lastRotation = 0\<rparr>"

definition pool_unparsable :: proxy_manager where
  "pool_unparsable =
     \<lparr>allUrls = [''not-a-url''], index = 0, current = None,
      failures_map = Map.empty, banned = Map.empty, lastRotation = 0\<rparr>"

text \<open>
  A pool configured with a working address and a string that is no URL, with the draws that
  leave the configured order.
\<close>

definition pool_good_and_unparsable :: proxy_manager where
  "pool_good_and_unparsable =
     ProxyManager [''http://b.example:8080'', ''not-a-url''] None 0 (\<lambda>i. i)"

section \<open>Request filter (xd-extended-adblock.js)\<close>

subsection \<open>String operations of the platform\<close>

text \<open>
  \<^verbatim>\<open>toLowerCase\<close> on code units below 256: the letters A to Z and the accented capitals
  192 to 222 (215, the multiplication sign, apart) move up by 32.
\<close>

definition js_lower :: "char \<Rightarrow> char" where
  "js_lower c =
     (let n = (of_char c :: nat)
      in if (65 \<le> n \<and> n \<le> 90) \<or> (192 \<le> n \<and> n \<le> 222 \<and> n \<noteq> 215)
         then char_of (n + 32) else c)"

definition toLowerCase :: "string \<Rightarrow> string" where
  "toLowerCase s = map js_lower s"

definition startsWith :: "string \<Rightarrow> string \<Rightarrow> bool" where
  "startsWith s p = (take (length p) s = p)"

definition endsWith :: "string \<Rightarrow> string \<Rightarrow> bool" where
  "endsWith s p = (length p \<le> length s \<and> drop (length s - length p) s = p)"

fun js_includes :: "string \<Rightarrow> string \<Rightarrow> bool" where
  "js_includes [] p = (p = [])"
| "js_includes (c # cs) p = (startsWith (c # cs) p \<or> js_includes cs p)"

subsection \<open>Normalisation\<close>

text \<open>\<^verbatim>\<open>normalizeArray\<close>, for an array of strings: trim, lower-case, drop the empty ones.\<close>

definition normalizeArray :: "string list \<Rightarrow> string list" where
  "normalizeArray vs = filter (\<lambda>v. v \<noteq> []) (map (\<lambda>v. toLowerCase (trim v)) vs)"

definition normalizeMode :: "string \<Rightarrow> string" where
  "normalizeMode m =
     (if toLowerCase (if m = [] then ''balanced'' else m) = ''aggressive''
      then ''aggressive'' else ''balanced'')"

text \<open>\<^verbatim>\<open>replace(/^\*\./, '')\<close> removes one leading \<open>*.\<close>; \<^verbatim>\<open>replace(/\.+$/, '')\<close> removes all trailing dots.\<close>

definition strip_wildcard :: "string \<Rightarrow> string" where
  "strip_wildcard s = (if startsWith s ''*.'' then drop 2 s else s)"

definition strip_trailing_dots :: "string \<Rightarrow> string" where
  "strip_trailing_dots s = rev (dropWhile (\<lambda>c. c = CHR ''.'') (rev s))"

definition normalizeDomain :: "string \<Rightarrow> string" where
  "normalizeDomain v = strip_trailing_dots (strip_wildcard (toLowerCase (trim v)))"

definition hostMatchesDomain :: "string \<Rightarrow> string \<Rightarrow> bool" where
  "hostMatchesDomain host domain =
     (let h = normalizeDomain host; d = normalizeDomain domain
      in h \<noteq> [] \<and> d \<noteq> [] \<and> (h = d \<or> endsWith h (''.'' @ d)))"

subsection \<open>The bounded map of blocked hosts\<close>

text \<open>
  A \<^verbatim>\<open>Map\<close> is the list of its entries in insertion order, with no key twice.
  \<^verbatim>\<open>set\<close> on a present key keeps its place; on a new key it appends.
\<close>

type_synonym lru = "(string \<times> nat) list"

definition map_has :: "lru \<Rightarrow> string \<Rightarrow> bool" where
  "map_has m key = (key \<in> fst ` set m)"

definition map_get :: "lru \<Rightarrow> string \<Rightarrow> nat option" where
  "map_get m key = map_of m key"

definition map_delete :: "lru \<Rightarrow> string \<Rightarrow> lru" where
  "map_delete m key = filter (\<lambda>e. fst e \<noteq> key) m"

definition map_set :: "lru \<Rightarrow> string \<Rightarrow> nat \<Rightarrow> lru" where
  "map_set m key v =
     (if map_has m key then map (\<lambda>e. if fst e = key then (key, v) else e) m else m @ [(key, v)])"

text \<open>
  \<^verbatim>\<open>inc\<close> of \<^verbatim>\<open>createLRUMap(maxSize)\<close>.  \<^verbatim>\<open>map.keys().next().value\<close> is the first key in
  insertion order, undefined for an empty map, and then nothing is deleted.
\<close>

definition inc :: "nat \<Rightarrow> lru \<Rightarrow> string \<Rightarrow> nat \<times> lru" where
  "inc maxSize m key =
     (let next = (case map_get m key of None \<Rightarrow> 0 | Some v \<Rightarrow> v) + 1;
          m1 = (if map_has m key then map_delete m key
                else if length m \<ge> maxSize
                     then (case m of [] \<Rightarrow> m | e # _ \<Rightarrow> map_delete m (fst e))
                     else m)
      in (next, map_set m1 key next))"

text \<open>
  The map of \<^verbatim>\<open>createLRUMap(maxSize)\<close> after \<^verbatim>\<open>inc\<close> was called for each of \<open>ks\<close> in order.
  The statistics keep \<^verbatim>\<open>blockedByHost = createLRUMap(500)\<close>.
\<close>

definition lru_after :: "nat \<Rightarrow> string list \<Rightarrow> lru" where
  "lru_after maxSize ks = fold (\<lambda>k m. snd (inc maxSize m k)) ks []"

definition blockedByHost_after :: "string list \<Rightarrow> lru" where
  "blockedByHost_after ks = lru_after 500 ks"

text \<open>Five hundred different host names: \<open>h\<close>, \<open>hh\<close>, \<open>hhh\<close> and so on.\<close>

definition hosts500 :: "string list" where
  "hosts500 = map (\<lambda>i. replicate (Suc i) CHR ''h'') [0..<500]"

subsection \<open>Configuration and compiled cache\<close>

record config =
  enabled :: bool
  mode :: string
  blockResourceTypes :: "string \<rightharpoonup> string list"
  blockUrlPatterns :: "string list"
  allowlistDomains :: "string list"
  logEveryBlocked :: nat

text \<open>The defaults of \<^verbatim>\<open>createAdblockManager\<close>.\<close>

definition default_blockResourceTypes :: "string \<rightharpoonup> string list" where
  "default_blockResourceTypes =
     [''balanced'' \<mapsto> [''media''], ''aggressive'' \<mapsto> [''image'', ''media'', ''font'']]"

definition default_config :: config where
  "default_config =
     \<lparr>enabled = True, mode = ''balanced'',
      blockResourceTypes = default_blockResourceTypes,
      blockUrlPatterns = [''doubleclick.net'', ''googlesyndication.com'', ''googleadservices.com'',
        ''taboola.com'', ''outbrain.com'', ''criteo.com'', ''adnxs.com''],
      allowlistDomains = [], logEveryBlocked = 25\<rparr>"

record cache =
  cache_enabled :: bool
  cache_mode :: string
  blockedTypes :: "string list"
  domainPatterns :: "string list"
  urlPatterns :: "string list"
  cache_allowlistDomains :: "string list"

definition buildCache :: "config \<Rightarrow> cache" where
  "buildCache cfg =
     (let m = normalizeMode (mode cfg);
          allPatterns = normalizeArray (blockUrlPatterns cfg);
          dps = filter (\<lambda>p. \<not> js_includes p ''/'' \<and> \<not> js_includes p ''?'') allPatterns;
          ups = filter (\<lambda>p. js_includes p ''/'' \<or> js_includes p ''?'') allPatterns
      in \<lparr>cache_enabled = enabled cfg, cache_mode = m,
          blockedTypes =
            normalizeArray (case blockResourceTypes cfg m of None \<Rightarrow> [] | Some ts \<Rightarrow> ts),
          domainPatterns = map normalizeDomain dps,
          urlPatterns = ups,
          cache_allowlistDomains = map normalizeDomain (normalizeArray (allowlistDomains cfg))\<rparr>)"

subsection \<open>The decision\<close>

record request =
  request_url :: string
  request_resourceType :: string

record decision =
  block :: bool
  decision_host :: "string option"
  decision_resourceType :: "string option"
  blockRule :: "string option"

definition allow :: decision where
  "allow = \<lparr>block = False, decision_host = None, decision_resourceType = None, blockRule = None\<rparr>"

definition blocked :: "string \<Rightarrow> string \<Rightarrow> string \<Rightarrow> decision" where
  "blocked h rt rule =
     \<lparr>block = True, decision_host = Some h, decision_resourceType = Some rt, blockRule = Some rule\<rparr>"

text \<open>
  \<^verbatim>\<open>evaluate(request)\<close>.  \<^verbatim>\<open>new URL(url).hostname\<close> is the parameter \<open>hostname\<close>, \<open>None\<close> when
  the constructor throws; the \<^verbatim>\<open>catch\<close> then leaves the host empty.  A match found by
  \<^verbatim>\<open>find\<close> counts when it is a non-empty string.
\<close>

definition evaluate :: "(string \<Rightarrow> string option) \<Rightarrow> cache \<Rightarrow> request \<Rightarrow> decision" where
  "evaluate hostname c req =
     (let u = toLowerCase (request_url req)
      in if \<not> cache_enabled c \<or> u = [] \<or> startsWith u ''data:'' \<or> startsWith u ''blob:''
            \<or> startsWith u ''about:''
         then allow
         else
           let h = (case hostname u of None \<Rightarrow> [] | Some hn \<Rightarrow> normalizeDomain hn)
           in if h \<noteq> [] \<and> (\<exists>d \<in> set (cache_allowlistDomains c). hostMatchesDomain h d)
              then allow
              else
                let rt = toLowerCase (request_resourceType req)
                in if rt \<in> set (blockedTypes c) then blocked h rt (''type:'' @ rt)
                   else if rt \<noteq> ''document''
                   then (case find (\<lambda>p. hostMatchesDomain h p) (domainPatterns c) of
                           Some md \<Rightarrow>
                             if md \<noteq> [] then blocked h rt (''domain:'' @ md)
                             else (case find (\<lambda>p. js_includes u p) (urlPatterns c) of
                                     Some mu \<Rightarrow>
                                       if mu \<noteq> [] then blocked h rt (''pattern:'' @ mu) else allow
                                   | None \<Rightarrow> allow)
                         | None \<Rightarrow>
                             (case find (\<lambda>p. js_includes u p) (urlPatterns c) of
                                Some mu \<Rightarrow>
                                  if mu \<noteq> [] then blocked h rt (''pattern:'' @ mu) else allow
                              | None \<Rightarrow> allow))
                   else allow)"

text \<open>
  Host names that the URL parser produces contain no white space: a space, a tab or a
  line break in the host makes the parser fail, and an opaque host has its control
  characters and every code unit above 126 percent-encoded.
\<close>

definition no_space :: "string \<Rightarrow> bool" where
  "no_space s = (\<forall>c \<in> set s. \<not> js_space c)"

subsection \<open>Example requests\<close>

definition example_hostname :: "string \<Rightarrow> string option" where
  "example_hostname u =
     (if u = ''https://cdn.example.com/banner.png'' then Some ''cdn.example.com''
      else if u = ''https://ads.doubleclick.net/pixel'' then Some ''ads.doubleclick.net''
      else None)"

definition allowlisting_config :: config where
  "allowlisting_config =
     default_config\<lparr>mode := ''aggressive'', allowlistDomains := [''*.Example.com'']\<rparr>"

definition banner_request :: request where
  "banner_request =
     \<lparr>request_url = ''https://cdn.example.com/banner.png'', request_resourceType = ''image''\<rparr>"

definition pixel_document_request :: request where
  "pixel_document_request =
     \<lparr>request_url = ''https://ads.doubleclick.net/pixel'', request_resourceType = ''document''\<rparr>"

definition pixel_script_request :: request where
  "pixel_script_request =
     \<lparr>request_url = ''https://ads.doubleclick.net/pixel'', request_resourceType = ''script''\<rparr>"

definition document_blocking_config :: config where
  "document_blocking_config =
     default_config\<lparr>blockResourceTypes := [''balanced'' \<mapsto> [''Document'']]\<rparr>"

section \<open>Agent context and tools (xd-chrome-core.js, xd-chrome-tools.js)\<close>

subsection \<open>Snapshots and context\<close>

record element =
  el_id :: string
  el_selector :: string
  el_role :: string
  el_name :: string
  el_href :: "string option"

record snapshot =
  elements :: "element list"
  snapshot_text :: string

text \<open>
  What the page script of \<^verbatim>\<open>createSnapshot\<close> computes for one element: selector, role,
  label and link target.
\<close>

record node =
  node_selector :: string
  node_role :: string
  node_name :: string
  node_href :: "string option"

fun digit_char :: "nat \<Rightarrow> char" where
  "digit_char n = char_of (48 + n)"

fun show_nat :: "nat \<Rightarrow> string" where
  "show_nat n = (if n < 10 then [digit_char n] else show_nat (n div 10) @ [digit_char (n mod 10)])"

declare show_nat.simps [simp del]

text \<open>Reading a decimal numeral back, to tell the identifiers apart.\<close>

definition read_nat :: "string \<Rightarrow> nat" where
  "read_nat s = foldl (\<lambda>a c. 10 * a + (of_char c - 48)) 0 s"

fun join :: "string \<Rightarrow> string list \<Rightarrow> string" where
  "join sep [] = []"
| "join sep [x] = x"
| "join sep (x # y # ys) = x @ sep @ join sep (y # ys)"

definition element_of_node :: "nat \<Rightarrow> node \<Rightarrow> element" where
  "element_of_node idx n =
     \<lparr>el_id = ''el_'' @ show_nat idx, el_selector = node_selector n, el_role = node_role n,
      el_name = node_name n, el_href = node_href n\<rparr>"

text \<open>
  \<^verbatim>\<open>createSnapshot(page, verbose)\<close>.  \<open>nodes\<close> are the visible elements that the selector list
  matches, each once, in the order the page returns them; the script keeps the first 120
  (300 when verbose) and numbers them from 0.
\<close>

definition createSnapshot :: "node list \<Rightarrow> bool \<Rightarrow> snapshot" where
  "createSnapshot nodes verbose =
     (let kept = take (if verbose then 300 else 120) nodes;
          els = map (\<lambda>(idx, n). element_of_node idx n) (zip [0..<length kept] kept)
      in \<lparr>elements = els,
          snapshot_text =
            join [CHR 0x0A]
              (map (\<lambda>el. trim (el_id el @ '' ['' @ el_role el @ ''] '' @ el_name el)) els)\<rparr>)"

text \<open>
  The fields of the context that the tools read and write.  \<open>page\<close> says whether \<^verbatim>\<open>ctx.page\<close>
  is an open page, \<open>pages\<close> is the length of \<^verbatim>\<open>ctx.pages\<close>, \<open>stealthSession\<close> says whether a
  stealth session with its typing and scrolling emulation is attached.
\<close>

record agent_ctx =
  page :: bool
  pages :: nat
  currentPageIndex :: nat
  currentUrl :: string
  lastSnapshot :: "snapshot option"
  visitedUrls :: "string set"
  proxyManager :: "proxy_manager option"
  proxyLaunchRaw :: "string option"
  stealthSession :: bool

definition addVisitedUrl :: "agent_ctx \<Rightarrow> string \<Rightarrow> agent_ctx" where
  "addVisitedUrl ctx u = (if u \<noteq> [] then ctx\<lparr>visitedUrls := insert u (visitedUrls ctx)\<rparr> else ctx)"

text \<open>\<^verbatim>\<open>ctx.lastSnapshot?.elements?.find(el => el.id === uid)\<close>\<close>

definition find_element :: "agent_ctx \<Rightarrow> string \<Rightarrow> element option" where
  "find_element ctx uid =
     (case lastSnapshot ctx of
        None \<Rightarrow> None
      | Some snap \<Rightarrow> find (\<lambda>el. el_id el = uid) (elements snap))"

definition not_found :: "string \<Rightarrow> error" where
  "not_found uid = Error (''Element not found in snapshot: '' @ uid)"

text \<open>The calls made to the browser engine and to the other parts of the context, in order.\<close>

datatype event =
    CallInit
  | CallClose
  | ReportFailure string
  | Goto string
  | TakeSnapshot
  | ScrollIntoView string
  | LocatorClick string
  | RoleClick string string
  | TextClick string
  | ScriptClick string
  | SwitchToTab nat
  | EmulateTyping string string
  | LocatorFill string string
  | RoleFill string string
  | HrefLookup string
  | ScrollToBottom
  | EmulateScroll int string
  | MouseWheel int

fun is_goto :: "event \<Rightarrow> bool" where
  "is_goto (Goto u) = True"
| "is_goto e = False"

subsection \<open>Rotation\<close>

text \<open>
  \<^verbatim>\<open>ctx.init()\<close> and \<^verbatim>\<open>ctx.close()\<close> are parameters: each takes the context and returns it as
  it left it, with the error it threw, if any.
\<close>

record lifecycle =
  ctx_init :: "agent_ctx \<Rightarrow> error option \<times> agent_ctx"
  ctx_close :: "agent_ctx \<Rightarrow> error option \<times> agent_ctx"

text \<open>
  \<^verbatim>\<open>ctx.rotateBrowser()\<close>; \<open>now\<close> is the clock reading of the failure report.  Every context
  made by \<^verbatim>\<open>createAgentContext\<close> has this method, so the test \<^verbatim>\<open>&& ctx.rotateBrowser\<close> in
  \<^verbatim>\<open>navigate\<close> is always passed.
\<close>

definition rotateBrowser ::
  "lifecycle \<Rightarrow> int \<Rightarrow> agent_ctx \<Rightarrow> (error + bool) \<times> agent_ctx \<times> event list" where
  "rotateBrowser lc now ctx =
     (case proxyManager ctx of
        None \<Rightarrow> (Inr False, ctx, [])
      | Some pm \<Rightarrow>
          (case (case proxyLaunchRaw ctx of
                   None \<Rightarrow> Inr (ctx, [])
                 | Some r \<Rightarrow>
                     if r \<noteq> []
                     then (case reportFailure pm r now of
                             Inl e \<Rightarrow> Inl (e, [ReportFailure r])
                           | Inr (b, pm') \<Rightarrow>
                               Inr (ctx\<lparr>proxyManager := Some pm'\<rparr>, [ReportFailure r]))
                     else Inr (ctx, [])) of
             Inl (e, ev1) \<Rightarrow> (Inl e, ctx, ev1)
           | Inr (ctx1, ev1) \<Rightarrow>
               (case ctx_close lc ctx1 of
                  (Some e, ctx2) \<Rightarrow> (Inl e, ctx2, ev1 @ [CallClose])
                | (None, ctx2) \<Rightarrow>
                    (case ctx_init lc ctx2 of
                       (Some e, ctx3) \<Rightarrow> (Inl e, ctx3, ev1 @ [CallClose, CallInit])
                     | (None, ctx3) \<Rightarrow> (Inr True, ctx3, ev1 @ [CallClose, CallInit])))))"

subsection \<open>navigate\<close>

text \<open>
  What the engine answers during one call of \<^verbatim>\<open>navigate\<close>: the outcome of the first
  \<^verbatim>\<open>page.goto\<close> and of the one after a rotation (\<open>None\<close> when it resolves), the clock, the
  URL of the page afterwards, and the elements found by the snapshot script.
\<close>

record navigate_env =
  goto_first :: "error option"
  goto_retry :: "error option"
  nav_now :: int
  nav_page_url :: string
  nav_nodes :: "error + node list"

record navigate_result =
  nav_url :: string
  nav_snapshot :: string
  nav_elementCount :: nat

text \<open>
  \<^verbatim>\<open>attemptGoto()\<close>: with no page, reading \<^verbatim>\<open>ctx.page.goto\<close> throws before the engine is
  called; with a page, the engine is called and answers \<open>outcome\<close>.
\<close>

definition attemptGoto ::
  "agent_ctx \<Rightarrow> string \<Rightarrow> error option \<Rightarrow> error option \<times> event list" where
  "attemptGoto ctx targetUrl outcome =
     (if page ctx then (outcome, [Goto targetUrl]) else (Some (TypeError ''goto''), []))"

text \<open>The part of \<^verbatim>\<open>navigate\<close> after the navigation has succeeded.\<close>

definition navigate_finish ::
  "navigate_env \<Rightarrow> agent_ctx \<Rightarrow> event list
     \<Rightarrow> (error + navigate_result) \<times> agent_ctx \<times> event list" where
  "navigate_finish env ctx evs =
     (let ctx1 = addVisitedUrl (ctx\<lparr>currentUrl := nav_page_url env\<rparr>) (nav_page_url env);
          ctx2 = (case proxyManager ctx1 of
                    None \<Rightarrow> ctx1
                  | Some pm \<Rightarrow>
                      (case proxyLaunchRaw ctx1 of
                         None \<Rightarrow> ctx1
                       | Some r \<Rightarrow>
                           if r \<noteq> [] then ctx1\<lparr>proxyManager := Some (reportSuccess pm r)\<rparr>
                           else ctx1))
      in case nav_nodes env of
           Inl e \<Rightarrow> (Inl e, ctx2, evs @ [TakeSnapshot])
         | Inr nodes \<Rightarrow>
             let snap = createSnapshot nodes False
             in (Inr \<lparr>nav_url = currentUrl ctx2, nav_snapshot = snapshot_text snap,
                      nav_elementCount = length (elements snap)\<rparr>,
                 ctx2\<lparr>lastSnapshot := Some snap\<rparr>, evs @ [TakeSnapshot]))"

text \<open>
  The \<^verbatim>\<open>try\<close> block of \<^verbatim>\<open>navigate\<close> with its \<^verbatim>\<open>catch\<close>: the error that leaves it, if any, the
  context and the calls made.
\<close>

definition navigate_attempt ::
  "lifecycle \<Rightarrow> navigate_env \<Rightarrow> agent_ctx \<Rightarrow> string
     \<Rightarrow> error option \<times> agent_ctx \<times> event list" where
  "navigate_attempt lc env ctx targetUrl =
     (case attemptGoto ctx targetUrl (goto_first env) of
        (None, ev1) \<Rightarrow> (None, ctx, ev1)
      | (Some navErr, ev1) \<Rightarrow>
          if js_includes (message navErr) ''ERR_TUNNEL_CONNECTION_FAILED''
          then (case rotateBrowser lc (nav_now env) ctx of
                  (Inl e, ctx2, ev) \<Rightarrow> (Some e, ctx2, ev1 @ ev)
                | (Inr rotated, ctx2, ev) \<Rightarrow>
                    if rotated
                    then (case attemptGoto ctx2 targetUrl (goto_retry env) of
                            (res, ev2) \<Rightarrow> (res, ctx2, ev1 @ ev @ ev2))
                    else (Some navErr, ctx2, ev1 @ ev))
          else (Some navErr, ctx, ev1))"

definition navigate ::
  "lifecycle \<Rightarrow> navigate_env \<Rightarrow> agent_ctx \<Rightarrow> string
     \<Rightarrow> (error + navigate_result) \<times> agent_ctx \<times> event list" where
  "navigate lc env ctx targetUrl =
     (case (if page ctx then (None, ctx, [])
            else (case ctx_init lc ctx of (e, c) \<Rightarrow> (e, c, [CallInit]))) of
        (Some e, ctx1, ev0) \<Rightarrow> (Inl e, ctx1, ev0)
      | (None, ctx1, ev0) \<Rightarrow>
          (case navigate_attempt lc env ctx1 targetUrl of
             (Some e, ctx2, ev) \<Rightarrow> (Inl e, ctx2, ev0 @ ev)
           | (None, ctx2, ev) \<Rightarrow> navigate_finish env ctx2 (ev0 @ ev)))"

subsection \<open>click\<close>

text \<open>
  What the engine answers during one call of \<^verbatim>\<open>click\<close>: the URL before; whether the click
  through the captured selector, through role and label, and through the label text
  resolves; the error of the script-level click, if any; the number of tabs and the URL of
  the active page afterwards; and, for the link fallback, the absolute target
  (\<open>None\<close> when the URL constructor throws), the outcome of the navigation and the URL after it.
\<close>

record click_env =
  url_before :: string
  selector_click :: bool
  role_click :: bool
  text_click :: bool
  script_click :: "error option"
  tabs_after :: nat
  url_after_click :: string
  href_resolved :: "string option"
  fallback_goto :: "error option"
  url_after_goto :: string

record click_result =
  clicked :: string
  newTabOpened :: bool
  click_url :: string

text \<open>
  The strategies of \<^verbatim>\<open>click\<close>.  An error of \<^verbatim>\<open>scrollIntoViewIfNeeded\<close> is dropped by its own
  \<^verbatim>\<open>catch\<close>; every error of the first three clicks is caught; the error of the script-level
  click is wrapped into the error of the tool.
\<close>

definition click_strategies ::
  "click_env \<Rightarrow> element \<Rightarrow> string \<Rightarrow> (error + unit) \<times> event list" where
  "click_strategies env item uid =
     (let ev1 = [ScrollIntoView (el_selector item), LocatorClick (el_selector item)]
      in if selector_click env then (Inr (), ev1)
         else
           (case (if el_role item \<noteq> [] \<and> el_name item \<noteq> []
                  then (role_click env, [RoleClick (el_role item) (el_name item)])
                  else (False, [])) of
              (clicked2, ev2) \<Rightarrow>
                (case (if \<not> clicked2 \<and> el_name item \<noteq> []
                       then (text_click env, [TextClick (el_name item)])
                       else (clicked2, [])) of
                   (clicked3, ev3) \<Rightarrow>
                     if \<not> clicked3
                     then (case script_click env of
                             None \<Rightarrow> (Inr (), ev1 @ ev2 @ ev3 @ [ScriptClick (el_selector item)])
                           | Some err \<Rightarrow>
                               (Inl (Error (''All click strategies failed for '' @ uid @ '': ''
                                       @ message err)),
                                ev1 @ ev2 @ ev3 @ [ScriptClick (el_selector item)]))
                     else (Inr (), ev1 @ ev2 @ ev3))))"

definition click ::
  "click_env \<Rightarrow> agent_ctx \<Rightarrow> string \<Rightarrow> (error + click_result) \<times> agent_ctx \<times> event list" where
  "click env ctx uid =
     (case find_element ctx uid of
        None \<Rightarrow> (Inl (not_found uid), ctx, [])
      | Some item \<Rightarrow>
          if \<not> page ctx then (Inl (TypeError ''url''), ctx, [])
          else
            (case click_strategies env item uid of
               (Inl e, evs) \<Rightarrow> (Inl e, ctx, evs)
             | (Inr _, evs) \<Rightarrow>
                 let tabsBefore = pages ctx;
                     tabsAfter = tabs_after env;
                     newTab = tabsAfter > tabsBefore;
                     ctx1 = ctx\<lparr>pages := tabsAfter\<rparr>;
                     ctx2 = (if newTab
                             then ctx1\<lparr>currentPageIndex := tabsAfter - 1,
                                       currentUrl := url_after_click env\<rparr>
                             else ctx1);
                     ev_tab = (if newTab then [SwitchToTab (tabsAfter - 1)] else []);
                     ctx3 = addVisitedUrl (ctx2\<lparr>currentUrl := url_after_click env\<rparr>)
                              (url_after_click env)
                 in case (if currentUrl ctx3 = url_before env \<and> el_role item = ''link''
                             \<and> el_href item \<noteq> None \<and> el_href item \<noteq> Some []
                          then (case href_resolved env of
                                  None \<Rightarrow> (ctx3, [])
                                | Some target \<Rightarrow>
                                    (case fallback_goto env of
                                       Some _ \<Rightarrow> (ctx3, [Goto target])
                                     | None \<Rightarrow>
                                         (addVisitedUrl (ctx3\<lparr>currentUrl := url_after_goto env\<rparr>)
                                            (url_after_goto env),
                                          [Goto target])))
                          else (ctx3, [])) of
                      (ctx4, ev_nav) \<Rightarrow>
                        (Inr \<lparr>clicked = uid, newTabOpened = newTab, click_url = currentUrl ctx4\<rparr>,
                         ctx4\<lparr>lastSnapshot := None\<rparr>,
                         evs @ ev_tab @ ev_nav)))"

text \<open>
  The resolution order as the specification words it: the strategies that apply to an
  element, in the declared order, attempted until one succeeds.
\<close>

datatype strategy = BySelector | ByRoleAndLabel | ByText | ByScript

definition declared_strategies :: "element \<Rightarrow> strategy list" where
  "declared_strategies item =
     [BySelector]
     @ (if el_role item \<noteq> [] \<and> el_name item \<noteq> [] then [ByRoleAndLabel] else [])
     @ (if el_name item \<noteq> [] then [ByText] else [])
     @ [ByScript]"

fun strategy_succeeds :: "click_env \<Rightarrow> strategy \<Rightarrow> bool" where
  "strategy_succeeds env BySelector = selector_click env"
| "strategy_succeeds env ByRoleAndLabel = role_click env"
| "strategy_succeeds env ByText = text_click env"
| "strategy_succeeds env ByScript = (script_click env = None)"

fun attempt_in_order :: "('s \<Rightarrow> bool) \<Rightarrow> 's list \<Rightarrow> 's list \<times> bool" where
  "attempt_in_order ok [] = ([], False)"
| "attempt_in_order ok (s # ss) =
     (if ok s then ([s], True)
      else (case attempt_in_order ok ss of (tried, done) \<Rightarrow> (s # tried, done)))"

text \<open>
  The engine calls that make up each strategy: the captured selector, scrolled into view and
  clicked; the lookup by role and label; the match on the label text; the script-level click
  on the node of the captured selector.
\<close>

fun strategy_calls :: "element \<Rightarrow> strategy \<Rightarrow> event list" where
  "strategy_calls item BySelector =
     [ScrollIntoView (el_selector item), LocatorClick (el_selector item)]"
| "strategy_calls item ByRoleAndLabel = [RoleClick (el_role item) (el_name item)]"
| "strategy_calls item ByText = [TextClick (el_name item)]"
| "strategy_calls item ByScript = [ScriptClick (el_selector item)]"

text \<open>The calls that \<^verbatim>\<open>click\<close> makes once the element has been clicked.\<close>

fun after_click :: "event \<Rightarrow> bool" where
  "after_click (SwitchToTab n) = True"
| "after_click (Goto u) = True"
| "after_click e = False"

subsection \<open>fill, openLink, scroll\<close>

record fill_env =
  fill_outcome :: "error option"

record fill_result =
  fill_uid :: string
  textLength :: nat

definition fill ::
  "fill_env \<Rightarrow> agent_ctx \<Rightarrow> string \<Rightarrow> string
     \<Rightarrow> (error + fill_result) \<times> agent_ctx \<times> event list" where
  "fill env ctx uid txt =
     (case find_element ctx uid of
        None \<Rightarrow> (Inl (not_found uid), ctx, [])
      | Some item \<Rightarrow>
          if stealthSession ctx
          then (case fill_outcome env of
                  Some e \<Rightarrow> (Inl e, ctx, [EmulateTyping (el_selector item) txt])
                | None \<Rightarrow>
                    (Inr \<lparr>fill_uid = uid, textLength = length txt\<rparr>, ctx,
                     [EmulateTyping (el_selector item) txt]))
          else if \<not> page ctx
          then (Inl (TypeError (if el_selector item \<noteq> [] then ''locator'' else ''getByRole'')),
                ctx, [])
          else
            let ev = (if el_selector item \<noteq> [] then [LocatorFill (el_selector item) txt]
                      else [RoleFill (el_name item) txt])
            in (case fill_outcome env of
                  Some e \<Rightarrow> (Inl e, ctx, ev)
                | None \<Rightarrow> (Inr \<lparr>fill_uid = uid, textLength = length txt\<rparr>, ctx, ev)))"

text \<open>
  What the engine answers during one call of \<^verbatim>\<open>openLink\<close>: the link target found in the
  live document (an error when \<^verbatim>\<open>page.evaluate\<close> throws, \<open>None\<close> for null), the absolute
  target (\<open>None\<close> when the URL constructor throws), the outcome of the navigation and the URL
  after it.
\<close>

record openLink_env =
  dom_href :: "error + string option"
  link_resolved :: "string option"
  link_goto :: "error option"
  link_url_after :: string

text \<open>
  The value of \<^verbatim>\<open>href\<close> in \<^verbatim>\<open>openLink\<close> when the checks are reached: the captured target when
  it is a non-empty string, else what the lookup in the live document gives.
\<close>

definition resolved_href :: "openLink_env \<Rightarrow> agent_ctx \<Rightarrow> element \<Rightarrow> error + string option" where
  "resolved_href env ctx item =
     (if el_href item \<noteq> None \<and> el_href item \<noteq> Some [] then Inr (el_href item)
      else if \<not> page ctx then Inl (TypeError ''evaluate'')
      else dom_href env)"

definition openLink ::
  "openLink_env \<Rightarrow> agent_ctx \<Rightarrow> string \<Rightarrow> (error + string) \<times> agent_ctx \<times> event list" where
  "openLink env ctx uid =
     (case find_element ctx uid of
        None \<Rightarrow> (Inl (not_found uid), ctx, [])
      | Some item \<Rightarrow>
          let ev = (if el_href item \<noteq> None \<and> el_href item \<noteq> Some [] then []
                    else if \<not> page ctx then [] else [HrefLookup (el_selector item)])
          in (case resolved_href env ctx item of
                Inl e \<Rightarrow> (Inl e, ctx, ev)
              | Inr None \<Rightarrow> (Inl (Error (''Element has no href: '' @ uid)), ctx, ev)
              | Inr (Some h) \<Rightarrow>
                  if h = [] then (Inl (Error (''Element has no href: '' @ uid)), ctx, ev)
                  else if startsWith h ''javascript:''
                  then (Inl (Error ''Cannot navigate to javascript: href''), ctx, ev)
                  else if \<not> page ctx then (Inl (TypeError ''url''), ctx, ev)
                  else
                    (case link_resolved env of
                       None \<Rightarrow> (Inl (Error ''Invalid URL''), ctx, ev)
                     | Some target \<Rightarrow>
                         (case link_goto env of
                            Some e \<Rightarrow> (Inl e, ctx, ev @ [Goto target])
                          | None \<Rightarrow>
                              let ctx1 = addVisitedUrl (ctx\<lparr>currentUrl := link_url_after env\<rparr>)
                                           (link_url_after env)
                              in (Inr (currentUrl ctx1), ctx1, ev @ [Goto target])))))"

record scroll_env =
  scroll_outcome :: "error option"

text \<open>\<^verbatim>\<open>scroll\<close>: an empty direction stands for \<open>down\<close>, a zero distance for 500.\<close>

definition scroll ::
  "scroll_env \<Rightarrow> agent_ctx \<Rightarrow> string \<Rightarrow> int \<Rightarrow> (error + string) \<times> agent_ctx \<times> event list" where
  "scroll env ctx dir dist =
     (let direction = (if dir = [] then ''down'' else dir);
          distance = (if dist = 0 then 500 else dist)
      in case (if direction = ''bottom''
               then (if page ctx then Inr [ScrollToBottom] else Inl (TypeError ''evaluate''))
               else if stealthSession ctx then Inr [EmulateScroll distance direction]
               else if page ctx
               then Inr [MouseWheel (if direction = ''up'' then - distance else distance)]
               else Inl (TypeError ''mouse'')) of
           Inl e \<Rightarrow> (Inl e, ctx, [])
         | Inr ev \<Rightarrow>
             (case scroll_outcome env of
                Some e \<Rightarrow> (Inl e, ctx, ev)
              | None \<Rightarrow> (Inr direction, ctx\<lparr>lastSnapshot := None\<rparr>, ev)))"

subsection \<open>Example session\<close>

definition example_nodes :: "node list" where
  "example_nodes =
     [\<lparr>node_selector = ''a'', node_role = ''a'', node_name = ''More information...'',
        node_href = Some ''https://www.iana.org/domains/example''\<rparr>,
      \<lparr>node_selector = ''#q'', node_role = ''textbox'', node_name = ''Search'', node_href = None\<rparr>,
      \<lparr>node_selector = ''#go'', node_role = ''button'', node_name = ''Go'', node_href = None\<rparr>,
      \<lparr>node_selector = ''#run'', node_role = ''link'', node_name = ''Run'',
        node_href = Some ''javascript:void(0)''\<rparr>,
      \<lparr>node_selector = ''#nolink'', node_role = ''link'', node_name = ''Nowhere'',
        node_href = None\<rparr>]"

definition consent_nodes :: "node list" where
  "consent_nodes =
     [\<lparr>node_selector = ''#accept'', node_role = ''button'', node_name = ''Accept'',
        node_href = None\<rparr>]"

definition ctx_ready :: agent_ctx where
  "ctx_ready =
     \<lparr>page = True, pages = 1, currentPageIndex = 0, currentUrl = ''https://example.com/'',
      lastSnapshot = Some (createSnapshot example_nodes False),
      visitedUrls = {''about:blank'', ''https://example.com/''},
      proxyManager = Some pool_two_failures,
      proxyLaunchRaw = Some ''http://a.example:8080'',
      stealthSession = False\<rparr>"

text \<open>A context before \<^verbatim>\<open>init\<close>: no page yet.\<close>

definition ctx_closed :: agent_ctx where
  "ctx_closed = ctx_ready\<lparr>page := False, pages := 0, lastSnapshot := None\<rparr>"

definition env_script_only :: click_env where
  "env_script_only =
     \<lparr>url_before = ''https://example.com/'', selector_click = False, role_click = False,
      text_click = False, script_click = None, tabs_after = 1,
      url_after_click = ''https://example.com/#done'', href_resolved = None,
      fallback_goto = None, url_after_goto = []\<rparr>"

definition env_selector_ok :: click_env where
  "env_selector_ok = env_script_only\<lparr>selector_click := True\<rparr>"

definition env_all_fail :: click_env where
  "env_all_fail = env_script_only\<lparr>script_click := Some (Error ''Element is not attached'')\<rparr>"

definition env_fill_ok :: fill_env where
  "env_fill_ok = \<lparr>fill_outcome = None\<rparr>"

definition env_scroll_ok :: scroll_env where
  "env_scroll_ok = \<lparr>scroll_outcome = None\<rparr>"

definition env_link :: openLink_env where
  "env_link =
     \<lparr>dom_href = Inr None, link_resolved = Some ''https://www.iana.org/domains/example'',
      link_goto = None, link_url_after = ''https://www.iana.org/domains/example''\<rparr>"

definition example_lifecycle :: lifecycle where
  "example_lifecycle =
     \<lparr>ctx_init = (\<lambda>c. (None, c\<lparr>page := True, pages := 1, currentPageIndex := 0,
                                currentUrl := ''about:blank''\<rparr>)),
      ctx_close = (\<lambda>c. (None, c\<lparr>page := False, pages := 0\<rparr>))\<rparr>"

definition env_tunnel_then_ok :: navigate_env where
  "env_tunnel_then_ok =
     \<lparr>goto_first = Some (Error ''page.goto: net::ERR_TUNNEL_CONNECTION_FAILED at https://shop.example/''),
      goto_retry = None, nav_now = 3000, nav_page_url = ''https://shop.example/'',
      nav_nodes = Inr consent_nodes\<rparr>"

definition env_timeout :: navigate_env where
  "env_timeout =
     env_tunnel_then_ok\<lparr>goto_first := Some (Error ''page.goto: Timeout 30000ms exceeded.'')\<rparr>"

definition env_nav_ok :: navigate_env where
  "env_nav_ok = env_tunnel_then_ok\<lparr>goto_first := None\<rparr>"

section \<open>Properties of the proxy manager\<close>

subsection \<open>Failure reports and bans\<close>

lemma inherited_property_no_scheme: "inherited_property k \<Longrightarrow> \<not> has_scheme k"
  unfolding inherited_property_def
  by (auto simp add: has_scheme_def c0_or_space_def ascii_alpha_def ascii_digit_def)

lemma has_scheme_ordinary: "has_scheme k \<Longrightarrow> k \<noteq> [] \<and> \<not> inherited_property k"
  using inherited_property_no_scheme by (auto simp add: has_scheme_def)

lemma reportFailure_inherited_name_throws:
  assumes "inherited_property k" "failures_map pm k = None"
  shows "reportFailure pm k now = Inl (NotAFunction ''this._failures[proxyUrl].push'')"
proof -
  have "k \<noteq> []" using assms(1) by (auto simp add: inherited_property_def)
  then show ?thesis using assms by (simp add: reportFailure_def)
qed

lemma three_failures_in_window_ban:
  assumes "proxyUrl \<noteq> []" "\<not> inherited_property proxyUrl" "failures_map pm proxyUrl = None"
    "t1 \<le> t2" "t2 \<le> t3" "t3 - t1 < FAIL_WINDOW_MS"
  shows "\<exists>pm1 pm2 pm3.
           reportFailure pm proxyUrl t1 = Inr (False, pm1)
         \<and> reportFailure pm1 proxyUrl t2 = Inr (False, pm2)
         \<and> reportFailure pm2 proxyUrl t3 = Inr (True, pm3)
         \<and> banned pm3 proxyUrl
             = Some \<lparr>bannedAt = t3, expiresAt = t3 + 12 * 60 * 60 * 1000, failures = 3\<rparr>"
  using assms
  by (simp add: reportFailure_def Let_def FAIL_THRESHOLD_def FAIL_WINDOW_MS_def
      BAN_DURATION_MS_def)

text \<open>
  Claim C1.  A proxy endpoint is a connection URL; its address is not empty and, having a
  scheme and so a colon, is none of the twelve inherited names, for which \<open>reportFailure\<close>
  throws (\<open>has_scheme_ordinary\<close>, \<open>reportFailure_inherited_name_throws\<close>).  For such an
  address \<open>reportFailure\<close> returns, and it answers true exactly when the failures inside the
  one-hour window, the new one included, number at least the threshold 3.  Then the address
  gets a ban record that starts now and expires 12 hours later and records the count, and
  its failure history is deleted.  Below the threshold the ban table is left as it was and
  the pruned history is stored.  No other address is touched.  \<open>reportSuccess\<close> deletes the
  history of the address, so its count is zero, the next failure is the first of a new
  window and it does not ban.
\<close>

theorem reportFailure_bans_at_threshold:
  assumes "proxyUrl \<noteq> []" and "\<not> inherited_property proxyUrl"
  shows "(\<exists>pm'. reportFailure pm proxyUrl now
               = Inr (FAIL_THRESHOLD \<le> length (windowed pm proxyUrl now), pm')
           \<and> (3 \<le> length (windowed pm proxyUrl now) \<longrightarrow>
                (\<exists>b. banned pm' proxyUrl = Some b
                     \<and> bannedAt b = now
                     \<and> expiresAt b = bannedAt b + 12 * 60 * 60 * 1000
                     \<and> failures b = length (windowed pm proxyUrl now))
                \<and> failures_map pm' proxyUrl = None
                \<and> failureCount pm' proxyUrl = 0)
           \<and> (length (windowed pm proxyUrl now) < 3 \<longrightarrow>
                banned pm' = banned pm
                \<and> failures_map pm' proxyUrl = Some (windowed pm proxyUrl now))
           \<and> (\<forall>u. u \<noteq> proxyUrl \<longrightarrow>
                banned pm' u = banned pm u \<and> failures_map pm' u = failures_map pm u))
         \<and> windowed pm proxyUrl now
             = filter (\<lambda>ts. now - ts < 60 * 60 * 1000)
                 ((case failures_map pm proxyUrl of None \<Rightarrow> [] | Some l \<Rightarrow> l) @ [now])
         \<and> failures_map (reportSuccess pm proxyUrl) proxyUrl = None
         \<and> failureCount (reportSuccess pm proxyUrl) proxyUrl = 0
         \<and> banned (reportSuccess pm proxyUrl) = banned pm
         \<and> windowed (reportSuccess pm proxyUrl) proxyUrl now = [now]
         \<and> (\<exists>pm'. reportFailure (reportSuccess pm proxyUrl) proxyUrl now = Inr (False, pm'))"
  using assms
  by (simp add: reportFailure_def reportSuccess_def windowed_def failureCount_def Let_def
      FAIL_THRESHOLD_def FAIL_WINDOW_MS_def BAN_DURATION_MS_def)

theorem reportFailure_bans_at_threshold_witness:
  "''http://a.example:8080'' \<noteq> []
   \<and> \<not> inherited_property ''http://a.example:8080''
   \<and> length (windowed pool_two_failures ''http://a.example:8080'' 3000) = 3
   \<and> (\<exists>pm'. reportFailure pool_two_failures ''http://a.example:8080'' 3000 = Inr (True, pm')
          \<and> banned pm' ''http://a.example:8080''
               = Some \<lparr>bannedAt = 3000, expiresAt = 43203000, failures = 3\<rparr>
          \<and> failureCount pm' ''http://a.example:8080'' = 0)
   \<and> length (windowed pool_one_banned ''http://b.example:8080'' 3000) = 1
   \<and> (\<exists>pm'. reportFailure pool_one_banned ''http://b.example:8080'' 3000 = Inr (False, pm')
          \<and> banned pm' = banned pool_one_banned
          \<and> failures_map pm' ''http://b.example:8080'' = Some [3000])
   \<and> failureCount (reportSuccess pool_two_failures ''http://a.example:8080'')
        ''http://a.example:8080'' = 0"
proof -
  have s: "has_scheme ''http://a.example:8080''" "has_scheme ''http://b.example:8080''"
    by (simp_all add: has_scheme_def c0_or_space_def ascii_alpha_def ascii_digit_def)
  have a: "''http://a.example:8080'' \<noteq> []" "\<not> inherited_property ''http://a.example:8080''"
    using has_scheme_ordinary [OF s(1)] by blast+
  have b: "''http://b.example:8080'' \<noteq> []" "\<not> inherited_property ''http://b.example:8080''"
    using has_scheme_ordinary [OF s(2)] by blast+
  have wa: "windowed pool_two_failures ''http://a.example:8080'' 3000 = [1000, 2000, 3000]"
    by (simp add: windowed_def pool_two_failures_def FAIL_WINDOW_MS_def)
  have wb: "windowed pool_one_banned ''http://b.example:8080'' 3000 = [3000]"
    by (simp add: windowed_def pool_one_banned_def FAIL_WINDOW_MS_def)
  note ta = reportFailure_bans_at_threshold [OF a, of pool_two_failures 3000]
  note tb = reportFailure_bans_at_threshold [OF b, of pool_one_banned 3000]
  have ra: "\<exists>pm'. reportFailure pool_two_failures ''http://a.example:8080'' 3000 = Inr (True, pm')
          \<and> banned pm' ''http://a.example:8080''
               = Some \<lparr>bannedAt = 3000, expiresAt = 43203000, failures = 3\<rparr>
          \<and> failureCount pm' ''http://a.example:8080'' = 0"
    using ta unfolding wa by (auto simp add: FAIL_THRESHOLD_def)
  have rb: "\<exists>pm'. reportFailure pool_one_banned ''http://b.example:8080'' 3000 = Inr (False, pm')
          \<and> banned pm' = banned pool_one_banned
          \<and> failures_map pm' ''http://b.example:8080'' = Some [3000]"
    using tb unfolding wb by (auto simp add: FAIL_THRESHOLD_def)
  have rs: "failureCount (reportSuccess pool_two_failures ''http://a.example:8080'')
        ''http://a.example:8080'' = 0"
    using ta by blast
  show ?thesis using a wa wb ra rb rs by simp
qed

subsection \<open>Rotation\<close>

lemma isBanned_fst: "fst (isBanned pm u now) = excluded pm u now"
  by (auto simp: isBanned_def excluded_def split: option.splits)

lemma isBanned_excluded_other:
  "v \<noteq> u \<Longrightarrow> excluded (snd (isBanned pm u now)) v now = excluded pm v now"
  by (auto simp: isBanned_def excluded_def split: option.splits)

lemma isBanned_fields:
  "allUrls (snd (isBanned pm u now)) = allUrls pm"
  "index (snd (isBanned pm u now)) = index pm"
  "current (snd (isBanned pm u now)) = current pm"
  "failures_map (snd (isBanned pm u now)) = failures_map pm"
  by (auto simp: isBanned_def split: option.splits)

lemma filter_available_fst:
  "distinct us \<Longrightarrow> fst (filter_available pm us now) = filter (\<lambda>u. \<not> excluded pm u now) us"
proof (induction us arbitrary: pm)
  case Nil
  show ?case by simp
next
  case (Cons u us)
  obtain b pm1 where b: "isBanned pm u now = (b, pm1)" by (cases "isBanned pm u now")
  have b1: "b = excluded pm u now" using isBanned_fst[of pm u now] b by simp
  have b2: "\<forall>v \<in> set us. excluded pm1 v now = excluded pm v now"
  proof
    fix v assume "v \<in> set us"
    then have "v \<noteq> u" using Cons.prems by auto
    then show "excluded pm1 v now = excluded pm v now"
      using isBanned_excluded_other[of v u pm now] b by simp
  qed
  obtain r pm2 where r: "filter_available pm1 us now = (r, pm2)"
    by (cases "filter_available pm1 us now")
  have "distinct us" using Cons.prems by simp
  then have "r = filter (\<lambda>u. \<not> excluded pm1 u now) us" using Cons.IH[of pm1] r by simp
  also have "\<dots> = filter (\<lambda>u. \<not> excluded pm u now) us"
    using b2 by (intro filter_cong) simp_all
  finally show ?case using b b1 r by simp
qed

lemma filter_available_snd:
  "index (snd (filter_available pm us now)) = index pm
   \<and> allUrls (snd (filter_available pm us now)) = allUrls pm
   \<and> current (snd (filter_available pm us now)) = current pm"
proof (induction us arbitrary: pm)
  case Nil
  show ?case by simp
next
  case (Cons u us)
  obtain b pm1 where b: "isBanned pm u now = (b, pm1)" by (cases "isBanned pm u now")
  have s1: "index pm1 = index pm \<and> allUrls pm1 = allUrls pm \<and> current pm1 = current pm"
    using isBanned_fields[of pm u now] b by simp
  obtain r pm2 where r: "filter_available pm1 us now = (r, pm2)"
    by (cases "filter_available pm1 us now")
  have "index pm2 = index pm1 \<and> allUrls pm2 = allUrls pm1 \<and> current pm2 = current pm1"
    using Cons.IH[of pm1] r by simp
  then show ?case using b r s1 by simp
qed

text \<open>
  What \<open>getNextProxy\<close> does in every state of a pool without duplicates.  An address it
  returns is in the pool, is not left out of the rotation, and has become the current
  address.  The answer is null exactly when every address of the pool is left out, or when
  the address selected among the others does not parse.
\<close>

lemma getNextProxy_result:
  assumes "distinct (allUrls pm)"
  shows "(\<forall>p. fst (getNextProxy purl pm now) = Some p \<longrightarrow>
        raw p \<in> set (allUrls pm)
      \<and> \<not> excluded pm (raw p) now
      \<and> current (snd (getNextProxy purl pm now)) = Some (raw p))
   \<and> (fst (getNextProxy purl pm now) = None \<longleftrightarrow>
        (\<forall>u \<in> set (allUrls pm). excluded pm u now)
      \<or> (\<exists>c \<in> set (allUrls pm). \<not> excluded pm c now \<and> purl c = None
             \<and> current (snd (getNextProxy purl pm now)) = Some c))"
proof -
  obtain av pm1 where f: "filter_available pm (allUrls pm) now = (av, pm1)"
    by (cases "filter_available pm (allUrls pm) now")
  have av: "av = filter (\<lambda>u. \<not> excluded pm u now) (allUrls pm)"
    using filter_available_fst[OF assms, of pm now] f by simp
  show ?thesis
  proof (cases "av = []")
    case True
    then have "\<forall>u \<in> set (allUrls pm). excluded pm u now"
      using av by (simp add: filter_empty_conv)
    then show ?thesis using True f by (simp add: getNextProxy_def)
  next
    case False
    define i where "i = (index pm1 + 1) mod length av"
    have i: "i < length av" using False by (simp add: i_def)
    then have mem: "av ! i \<in> set av" by simp
    then have c: "av ! i \<in> set (allUrls pm)" "\<not> excluded pm (av ! i) now"
      using av by auto
    have res: "getNextProxy purl pm now =
       (parseProxy purl (av ! i), pm1\<lparr>index := i, current := Some (av ! i), lastRotation := now\<rparr>)"
      using False f by (simp add: getNextProxy_def Let_def i_def)
    have notall: "\<not> (\<forall>u \<in> set (allUrls pm). excluded pm u now)" using c by blast
    show ?thesis
      using c notall by (auto simp: res parseProxy_def split: option.splits)
  qed
qed

lemma getNextProxy_skips_banned_example:
  "fst (getNextProxy URL_scheme_check pool_one_banned 5000)
     = Some \<lparr>raw = ''http://b.example:8080'', parts = ()\<rparr>
   \<and> excluded pool_one_banned ''http://a.example:8080'' 5000"
  by (simp add: getNextProxy_def pool_one_banned_def isBanned_def parseProxy_def excluded_def
      inherited_property_def URL_scheme_check_def has_scheme_def c0_or_space_def ascii_alpha_def ascii_digit_def Let_def)

lemma getNextProxy_inherited_name_example:
  "getNextProxy URL_scheme_check (pool_unparsable\<lparr>allUrls := [''constructor'']\<rparr>) 0
     = (None, pool_unparsable\<lparr>allUrls := [''constructor'']\<rparr>)"
  by (simp add: getNextProxy_def pool_unparsable_def isBanned_def inherited_property_def)

text \<open>
  Claim C2.  The claim is what the code documents (\<^verbatim>\<open>null if all banned\<close>) and what its
  caller relies on (\<^verbatim>\<open>Proxy enabled but no available proxies\<close>), and the code breaks it.
  The pool configured with \<open>http://b.example:8080\<close> and \<open>not-a-url\<close>, in this order, has no
  ban at all.  \<open>getNextProxy\<close> moves the index from 0 to 1, makes \<open>not-a-url\<close> the current
  address and answers null, although \<open>http://b.example:8080\<close> is in the pool, is not banned
  and parses.
\<close>

theorem getNextProxy_null_with_good_endpoint:
  "allUrls pool_good_and_unparsable = [''http://b.example:8080'', ''not-a-url'']
   \<and> index pool_good_and_unparsable = 0
   \<and> banned pool_good_and_unparsable = Map.empty
   \<and> fst (getNextProxy URL_scheme_check pool_good_and_unparsable 0) = None
   \<and> index (snd (getNextProxy URL_scheme_check pool_good_and_unparsable 0)) = 1
   \<and> current (snd (getNextProxy URL_scheme_check pool_good_and_unparsable 0))
       = Some ''not-a-url''
   \<and> fst (isBanned pool_good_and_unparsable ''http://b.example:8080'' 0) = False
   \<and> parseProxy URL_scheme_check ''http://b.example:8080''
       = Some \<lparr>raw = ''http://b.example:8080'', parts = ()\<rparr>"
  by (simp add: pool_good_and_unparsable_def ProxyManager_def load_def trim_def js_space_def
      insertion_order_def shuffle_def swap_def getNextProxy_def isBanned_def
      inherited_property_def parseProxy_def URL_scheme_check_def has_scheme_def
      c0_or_space_def ascii_alpha_def ascii_digit_def Let_def)

subsection \<open>Construction\<close>

lemma swap_props:
  assumes "i < length arr" "j < length arr"
  shows "set (swap arr i j) = set arr" "distinct (swap arr i j) = distinct arr"
    "length (swap arr i j) = length arr"
  using assms by (simp_all add: swap_def)

lemma shuffle_from_props:
  assumes "\<forall>k. 1 \<le> k \<and> k \<le> i \<longrightarrow> rnd k \<le> k" "i < length arr"
  shows "set (shuffle_from rnd i arr) = set arr
    \<and> distinct (shuffle_from rnd i arr) = distinct arr
    \<and> length (shuffle_from rnd i arr) = length arr"
  using assms
proof (induction i arbitrary: arr)
  case 0
  then show ?case by simp
next
  case (Suc i)
  have "rnd (Suc i) \<le> Suc i" using Suc.prems(1) by simp
  then have j: "rnd (Suc i) < length arr" using Suc.prems(2) by linarith
  have l: "i < length (swap arr (Suc i) (rnd (Suc i)))" using Suc.prems j by (simp add: swap_props)
  have "\<forall>k. 1 \<le> k \<and> k \<le> i \<longrightarrow> rnd k \<le> k" using Suc.prems by simp
  from Suc.IH[OF this l] show ?case using Suc.prems j by (simp add: swap_props)
qed

lemma shuffle_props:
  assumes "draws_in_range rnd (length arr)"
  shows "set (shuffle rnd arr) = set arr \<and> distinct (shuffle rnd arr) = distinct arr
    \<and> length (shuffle rnd arr) = length arr"
proof (cases "arr = []")
  case True
  then show ?thesis by (simp add: shuffle_def)
next
  case False
  then have l: "length arr - 1 < length arr" by simp
  have r: "\<forall>k. 1 \<le> k \<and> k \<le> length arr - 1 \<longrightarrow> rnd k \<le> k"
    using assms False by (auto simp: draws_in_range_def)
  from shuffle_from_props[OF r l] show ?thesis by (simp add: shuffle_def)
qed

lemma insertion_order_fold:
  "distinct acc \<Longrightarrow>
     distinct (fold (\<lambda>x acc. if x \<in> set acc then acc else acc @ [x]) xs acc)
   \<and> set (fold (\<lambda>x acc. if x \<in> set acc then acc else acc @ [x]) xs acc) = set acc \<union> set xs"
  by (induction xs arbitrary: acc) auto

lemma insertion_order_props: "distinct (insertion_order xs)" "set (insertion_order xs) = set xs"
  using insertion_order_fold[of "[]" xs] by (simp_all add: insertion_order_def)

lemma shuffle_from_cong:
  "(\<forall>k. 1 \<le> k \<and> k \<le> i \<longrightarrow> r1 k = r2 k) \<Longrightarrow> shuffle_from r1 i arr = shuffle_from r2 i arr"
  by (induction i arbitrary: arr) simp_all

lemma shuffle_from_tail:
  assumes "\<forall>k. 1 \<le> k \<and> k \<le> i \<longrightarrow> rnd k \<le> k" "i < length arr"
  shows "drop (Suc i) (shuffle_from rnd i arr) = drop (Suc i) arr"
  using assms
proof (induction i arbitrary: arr)
  case 0
  then show ?case by simp
next
  case (Suc i)
  let ?arr' = "swap arr (Suc i) (rnd (Suc i))"
  have j: "rnd (Suc i) \<le> Suc i" using Suc.prems(1) by simp
  have l: "i < length ?arr'" using Suc.prems(2) by (simp add: swap_def)
  have b: "\<forall>k. 1 \<le> k \<and> k \<le> i \<longrightarrow> rnd k \<le> k" using Suc.prems(1) by simp
  have "drop (Suc i) (shuffle_from rnd i ?arr') = drop (Suc i) ?arr'" by (rule Suc.IH[OF b l])
  then have "drop 1 (drop (Suc i) (shuffle_from rnd i ?arr')) = drop 1 (drop (Suc i) ?arr')" by simp
  then have "drop (Suc (Suc i)) (shuffle_from rnd i ?arr') = drop (Suc (Suc i)) ?arr'" by simp
  moreover have "drop (Suc (Suc i)) ?arr' = drop (Suc (Suc i)) arr"
    using j by (simp add: swap_def)
  ultimately show ?case by simp
qed

lemma swap_last:
  assumes "j \<le> i" "i < length arr"
  shows "swap arr i j ! i = arr ! j"
  using assms by (cases "j = i") (simp_all add: swap_def)

lemma shuffle_from_reaches:
  assumes "i < length arr" "mset ys = mset (take (Suc i) arr)"
  shows "\<exists>rnd. (\<forall>k. rnd k \<le> k) \<and> shuffle_from rnd i arr = ys @ drop (Suc i) arr"
  using assms
proof (induction i arbitrary: arr ys)
  case 0
  then have "ys = take (Suc 0) arr" by (cases arr) (simp_all add: mset_single_iff_right)
  define z where "z = (\<lambda>k::nat. 0::nat)"
  have "(\<forall>k. z k \<le> k) \<and> shuffle_from z 0 arr = ys @ drop (Suc 0) arr"
    using \<open>ys = take (Suc 0) arr\<close> by (simp add: z_def)
  then show ?case by blast
next
  case (Suc i)
  have len: "length ys = Suc (Suc i)"
    using Suc.prems mset_eq_length[of ys "take (Suc (Suc i)) arr"] by simp
  then obtain ys' y where ys: "ys = ys' @ [y]" by (cases ys rule: rev_cases) auto
  have "y \<in> set (take (Suc (Suc i)) arr)" using Suc.prems(2) ys mset_eq_setD by fastforce
  then obtain j where j: "j < Suc (Suc i)" "arr ! j = y"
    using Suc.prems(1) by (auto simp: in_set_conv_nth)
  let ?arr' = "swap arr (Suc i) j"
  have jl: "j < length arr" using j Suc.prems(1) by simp
  have last: "?arr' ! Suc i = y" using swap_last[of j "Suc i" arr] j Suc.prems(1) by simp
  have l': "length ?arr' = length arr" by (simp add: swap_def)
  have tk: "take (Suc (Suc i)) ?arr' = swap (take (Suc (Suc i)) arr) (Suc i) j"
    using j by (simp add: swap_def take_update_swap)
  have "mset (swap (take (Suc (Suc i)) arr) (Suc i) j) = mset (take (Suc (Suc i)) arr)"
    unfolding swap_def using j(1) Suc.prems(1) by (intro mset_swap) simp_all
  then have "mset (take (Suc (Suc i)) ?arr') = mset (take (Suc (Suc i)) arr)"
    using tk by simp
  moreover have "take (Suc (Suc i)) ?arr' = take (Suc i) ?arr' @ [y]"
    using last l' Suc.prems(1) by (simp add: take_Suc_conv_app_nth)
  ultimately have "add_mset y (mset ys') = add_mset y (mset (take (Suc i) ?arr'))"
    using Suc.prems(2) ys by simp
  then have m: "mset ys' = mset (take (Suc i) ?arr')" by (simp only: add_mset_add_mset_same_iff)
  have il: "i < length ?arr'" using Suc.prems(1) l' by simp
  obtain rnd' where r: "\<forall>k. rnd' k \<le> k" "shuffle_from rnd' i ?arr' = ys' @ drop (Suc i) ?arr'"
    using Suc.IH[OF il m] by blast
  define rnd where "rnd = rnd'(Suc i := j)"
  have b: "\<forall>k. rnd k \<le> k" using r(1) j by (simp add: rnd_def)
  have "shuffle_from rnd (Suc i) arr = shuffle_from rnd i ?arr'" by (simp add: rnd_def)
  also have "\<dots> = shuffle_from rnd' i ?arr'" by (rule shuffle_from_cong) (simp add: rnd_def)
  also have "\<dots> = ys' @ drop (Suc i) ?arr'" by (rule r(2))
  also have "drop (Suc i) ?arr' = y # drop (Suc (Suc i)) ?arr'"
    using last l' Suc.prems(1) by (metis Cons_nth_drop_Suc)
  also have "drop (Suc (Suc i)) ?arr' = drop (Suc (Suc i)) arr"
    using j by (simp add: swap_def)
  finally have "shuffle_from rnd (Suc i) arr = ys @ drop (Suc (Suc i)) arr" using ys by simp
  then show ?case using b by blast
qed

lemma shuffle_reaches:
  assumes "mset ys = mset arr"
  shows "\<exists>rnd. (\<forall>k. rnd k \<le> k) \<and> shuffle rnd arr = ys"
proof (cases "arr = []")
  case True
  define z where "z = (\<lambda>k::nat. 0::nat)"
  have "(\<forall>k. z k \<le> k) \<and> shuffle z arr = ys"
    using True assms by (simp add: shuffle_def z_def)
  then show ?thesis by blast
next
  case False
  then have l: "length arr - 1 < length arr" by simp
  have t: "take (Suc (length arr - 1)) arr = arr" using False by simp
  have m: "mset ys = mset (take (Suc (length arr - 1)) arr)" using assms t by simp
  from shuffle_from_reaches[OF l m] show ?thesis using False by (simp add: shuffle_def)
qed

lemma shuffle_from_inj:
  assumes "distinct arr" "i < length arr"
    "\<forall>k. 1 \<le> k \<and> k \<le> i \<longrightarrow> r1 k \<le> k" "\<forall>k. 1 \<le> k \<and> k \<le> i \<longrightarrow> r2 k \<le> k"
    "shuffle_from r1 i arr = shuffle_from r2 i arr"
  shows "\<forall>k. 1 \<le> k \<and> k \<le> i \<longrightarrow> r1 k = r2 k"
  using assms
proof (induction i arbitrary: arr)
  case 0
  then show ?case by simp
next
  case (Suc i)
  let ?a1 = "swap arr (Suc i) (r1 (Suc i))" and ?a2 = "swap arr (Suc i) (r2 (Suc i))"
  have j1: "r1 (Suc i) \<le> Suc i" and j2: "r2 (Suc i) \<le> Suc i" using Suc.prems by simp_all
  have b1: "\<forall>k. 1 \<le> k \<and> k \<le> i \<longrightarrow> r1 k \<le> k" and b2: "\<forall>k. 1 \<le> k \<and> k \<le> i \<longrightarrow> r2 k \<le> k"
    using Suc.prems by simp_all
  have l1: "i < length ?a1" and l2: "i < length ?a2" using Suc.prems(2) by (simp_all add: swap_def)
  have e: "shuffle_from r1 i ?a1 = shuffle_from r2 i ?a2" using Suc.prems(5) by simp
  have "drop (Suc i) ?a1 = drop (Suc i) ?a2"
    using shuffle_from_tail[OF b1 l1] shuffle_from_tail[OF b2 l2] e by simp
  then have "drop (Suc i) ?a1 ! 0 = drop (Suc i) ?a2 ! 0" by simp
  then have "?a1 ! Suc i = ?a2 ! Suc i" using Suc.prems(2) by (simp add: swap_def)
  then have "arr ! r1 (Suc i) = arr ! r2 (Suc i)"
    using swap_last[OF j1 Suc.prems(2)] swap_last[OF j2 Suc.prems(2)] by simp
  then have top: "r1 (Suc i) = r2 (Suc i)"
    using Suc.prems(1,2) j1 j2 by (simp add: nth_eq_iff_index_eq)
  have d: "distinct ?a1" using Suc.prems(1,2) j1 by (simp add: swap_props)
  have e': "shuffle_from r1 i ?a1 = shuffle_from r2 i ?a1" using e top by simp
  have "\<forall>k. 1 \<le> k \<and> k \<le> i \<longrightarrow> r1 k = r2 k" by (rule Suc.IH[OF d l1 b1 b2 e'])
  then show ?case using top by (auto simp: le_Suc_eq)
qed

lemma shuffle_inj:
  assumes "distinct arr" "draws_in_range r1 (length arr)" "draws_in_range r2 (length arr)"
    "shuffle r1 arr = shuffle r2 arr"
  shows "\<forall>k. 1 \<le> k \<and> k < length arr \<longrightarrow> r1 k = r2 k"
proof (cases "arr = []")
  case True
  then show ?thesis by simp
next
  case False
  then have l: "length arr - 1 < length arr" by simp
  have b1: "\<forall>k. 1 \<le> k \<and> k \<le> length arr - 1 \<longrightarrow> r1 k \<le> k"
    and b2: "\<forall>k. 1 \<le> k \<and> k \<le> length arr - 1 \<longrightarrow> r2 k \<le> k"
    using assms(2,3) False by (auto simp: draws_in_range_def)
  have e: "shuffle_from r1 (length arr - 1) arr = shuffle_from r2 (length arr - 1) arr"
    using assms(4) by (simp add: shuffle_def)
  from shuffle_from_inj[OF assms(1) l b1 b2 e] show ?thesis using False by auto
qed

text \<open>
  Claim C9, as the code has it.  The constructor trims every configured address, drops the
  empty ones and keeps the first copy of each: the pool has no duplicate and no empty
  string, and it holds every other trimmed address, whether or not it parses as a URL.
  The shuffle only reorders.  Every ordering of the pool is produced by some sequence of
  draws, and by one only: two sequences of draws that give the same order agree on every
  draw the loop makes, so equally likely draws give equally likely orders.
\<close>

theorem ProxyManager_endpoints:
  assumes "\<forall>i. rnd i \<le> i"
  shows "distinct (allUrls (ProxyManager cfgUrls stored now rnd))
       \<and> [] \<notin> set (allUrls (ProxyManager cfgUrls stored now rnd))
       \<and> set (allUrls (ProxyManager cfgUrls stored now rnd))
           = {trim v | v. v \<in> set cfgUrls \<and> trim v \<noteq> []}
       \<and> mset (allUrls (ProxyManager cfgUrls stored now rnd))
           = mset (insertion_order (filter (\<lambda>v. v \<noteq> []) (map trim cfgUrls)))
       \<and> (\<forall>ys. mset ys = mset (insertion_order (filter (\<lambda>v. v \<noteq> []) (map trim cfgUrls)))
             \<longrightarrow> (\<exists>r. (\<forall>i. r i \<le> i) \<and> allUrls (ProxyManager cfgUrls stored now r) = ys))
       \<and> (\<forall>r. (\<forall>i. r i \<le> i)
               \<and> allUrls (ProxyManager cfgUrls stored now r)
                   = allUrls (ProxyManager cfgUrls stored now rnd)
             \<longrightarrow> (\<forall>k. 1 \<le> k \<and> k < length (allUrls (ProxyManager cfgUrls stored now rnd))
                     \<longrightarrow> r k = rnd k))"
proof -
  let ?xs = "insertion_order (filter (\<lambda>v. v \<noteq> []) (map trim cfgUrls))"
  have u: "\<And>r. allUrls (ProxyManager cfgUrls stored now r) = shuffle r ?xs"
    by (simp add: ProxyManager_def)
  have d: "draws_in_range rnd (length ?xs)" using assms by (simp add: draws_in_range_def)
  have s: "set (shuffle rnd ?xs) = set ?xs \<and> distinct (shuffle rnd ?xs) = distinct ?xs
     \<and> length (shuffle rnd ?xs) = length ?xs"
    using shuffle_props[OF d] .
  have x: "set ?xs = {trim v | v. v \<in> set cfgUrls \<and> trim v \<noteq> []}"
    by (auto simp: insertion_order_props)
  have dx: "distinct ?xs" by (rule insertion_order_props)
  have m: "mset (shuffle rnd ?xs) = mset ?xs"
    using s dx by (simp add: set_eq_iff_mset_eq_distinct [symmetric])
  have reach: "\<forall>ys. mset ys = mset ?xs \<longrightarrow> (\<exists>r. (\<forall>i. r i \<le> i) \<and> shuffle r ?xs = ys)"
    using shuffle_reaches by blast
  have inj: "\<forall>r. (\<forall>i. r i \<le> i) \<and> shuffle r ?xs = shuffle rnd ?xs
      \<longrightarrow> (\<forall>k. 1 \<le> k \<and> k < length (shuffle rnd ?xs) \<longrightarrow> r k = rnd k)"
  proof (intro allI impI)
    fix r k
    assume a: "(\<forall>i. r i \<le> i) \<and> shuffle r ?xs = shuffle rnd ?xs"
      and k: "1 \<le> k \<and> k < length (shuffle rnd ?xs)"
    have dr: "draws_in_range r (length ?xs)" using a by (simp add: draws_in_range_def)
    have e: "shuffle r ?xs = shuffle rnd ?xs" using a by simp
    from shuffle_inj[OF dx dr d e] k s show "r k = rnd k" by simp
  qed
  have e: "[] \<notin> set ?xs" using x by auto
  show ?thesis unfolding u using s x dx m reach inj e by simp
qed

theorem ProxyManager_endpoints_witness:
  "(\<forall>i::nat. (0::nat) \<le> i)
   \<and> allUrls (ProxyManager
        [''  http://a.example:8080 '', [], ''not-a-url'', ''http://a.example:8080'', ''   '']
        None 0 (\<lambda>i. 0))
     = [''not-a-url'', ''http://a.example:8080'']
   \<and> distinct (allUrls (ProxyManager
        [''  http://a.example:8080 '', [], ''not-a-url'', ''http://a.example:8080'', ''   '']
        None 0 (\<lambda>i. 0)))
   \<and> [] \<notin> set (allUrls (ProxyManager
        [''  http://a.example:8080 '', [], ''not-a-url'', ''http://a.example:8080'', ''   '']
        None 0 (\<lambda>i. 0)))"
proof -
  have h: "\<forall>i::nat. (\<lambda>i. 0::nat) i \<le> i" by simp
  have v: "allUrls (ProxyManager
        [''  http://a.example:8080 '', [], ''not-a-url'', ''http://a.example:8080'', ''   '']
        None 0 (\<lambda>i. 0))
     = [''not-a-url'', ''http://a.example:8080'']"
    by (simp add: ProxyManager_def trim_def js_space_def insertion_order_def shuffle_def swap_def)
  from ProxyManager_endpoints [OF h] v show ?thesis by blast
qed

text \<open>
  The claim as it is written fails: an address that the URL constructor rejects, for which
  \<open>_parseProxy\<close> answers null, stays in the pool.
\<close>

theorem ProxyManager_keeps_unparsable_address:
  "''not-a-url'' \<in> set (allUrls (ProxyManager [''not-a-url''] None 0 (\<lambda>i. 0)))
   \<and> parseProxy URL_scheme_check ''not-a-url'' = None"
  by (simp add: ProxyManager_def trim_def js_space_def insertion_order_def shuffle_def
      parseProxy_def URL_scheme_check_def has_scheme_def c0_or_space_def ascii_alpha_def
      ascii_digit_def)

section \<open>Properties of the request filter\<close>

subsection \<open>Normalised host names\<close>

lemma js_lower_idem: "js_lower (js_lower c) = js_lower c"
proof -
  have "(of_char c :: nat) < 256" by simp
  then show ?thesis by (auto simp: js_lower_def Let_def)
qed

lemma js_space_lower: "js_space (js_lower c) = js_space c"
proof -
  have "(of_char c :: nat) < 256" by simp
  then show ?thesis by (auto simp: js_lower_def js_space_def Let_def)
qed

lemma toLowerCase_idem: "toLowerCase (toLowerCase s) = toLowerCase s"
  by (simp add: toLowerCase_def js_lower_idem)

lemma dropWhile_space_lower:
  "dropWhile js_space (map js_lower s) = map js_lower (dropWhile js_space s)"
  by (induction s) (simp_all add: js_space_lower)

lemma trim_lower: "trim (toLowerCase s) = toLowerCase (trim s)"
  by (simp add: trim_def toLowerCase_def dropWhile_space_lower rev_map)

lemma last_dropWhile: "dropWhile P xs \<noteq> [] \<Longrightarrow> last (dropWhile P xs) = last xs"
  by (induction xs) (auto split: if_splits)

lemma strip_idem:
  "dropWhile P (rev (dropWhile P (rev (dropWhile P s)))) = rev (dropWhile P (rev (dropWhile P s)))"
proof -
  let ?u = "dropWhile P s" and ?w = "dropWhile P (rev (dropWhile P s))"
  show ?thesis
  proof (cases "?w = []")
    case True
    show ?thesis by (simp only: True rev.simps dropWhile.simps)
  next
    case False
    have u: "?u \<noteq> []"
    proof
      assume "?u = []"
      then have "?w = []" by (simp only: rev.simps dropWhile.simps)
      with False show False by blast
    qed
    have "last ?w = last (rev ?u)" using False by (rule last_dropWhile)
    then have "last ?w = hd ?u" using u by (simp add: last_rev)
    moreover have "\<not> P (hd ?u)" using u by (rule hd_dropWhile)
    ultimately have "\<not> P (hd (rev ?w))" using False by (simp add: hd_rev)
    then show ?thesis by (simp add: dropWhile_eq_self_iff)
  qed
qed

lemma trim_idem: "trim (trim s) = trim s"
  by (simp add: trim_def strip_idem)

lemma trim_no_space: "no_space s \<Longrightarrow> trim s = s"
proof -
  assume a: "no_space s"
  have d: "dropWhile js_space s = s" using a by (cases s) (simp_all add: no_space_def)
  have "dropWhile js_space (rev s) = rev s"
    using a by (cases "rev s") (auto simp: no_space_def dest: arg_cong[where f = set])
  then show ?thesis using d by (simp add: trim_def)
qed

lemma std_idem: "strip_trailing_dots (strip_trailing_dots s) = strip_trailing_dots s"
  by (simp add: strip_trailing_dots_def)

lemma std_id_iff: "strip_trailing_dots s = s \<longleftrightarrow> s = [] \<or> last s \<noteq> CHR ''.''"
proof -
  have "strip_trailing_dots s = s \<longleftrightarrow> dropWhile (\<lambda>c. c = CHR ''.'') (rev s) = rev s"
    by (metis rev_rev_ident strip_trailing_dots_def)
  also have "\<dots> \<longleftrightarrow> rev s = [] \<or> hd (rev s) \<noteq> CHR ''.''"
    by (simp add: dropWhile_eq_self_iff)
  finally show ?thesis by (auto simp: hd_rev)
qed

lemma set_std: "set (strip_trailing_dots s) \<subseteq> set s"
  by (auto simp: strip_trailing_dots_def dest: set_dropWhileD)

lemma set_sw: "set (strip_wildcard s) \<subseteq> set s"
  by (auto simp: strip_wildcard_def dest: in_set_dropD)

lemma set_nd_sub: "set (normalizeDomain v) \<subseteq> js_lower ` set (trim v)"
  using set_std set_sw by (fastforce simp: normalizeDomain_def toLowerCase_def)

lemma nd_lowered: "toLowerCase (normalizeDomain v) = normalizeDomain v"
proof -
  have "\<forall>c \<in> set (normalizeDomain v). js_lower c = c"
    using set_nd_sub[of v] by (auto simp: js_lower_idem)
  then show ?thesis by (simp add: toLowerCase_def map_idI)
qed

lemma nd_std: "strip_trailing_dots (normalizeDomain v) = normalizeDomain v"
  by (simp add: normalizeDomain_def std_idem)

lemma nd_no_space: "no_space v \<Longrightarrow> no_space (normalizeDomain v)"
  using set_nd_sub[of v] by (auto simp: no_space_def trim_no_space js_space_lower)

lemma std_sw:
  assumes "strip_trailing_dots s = s"
  shows "strip_trailing_dots (strip_wildcard s) = strip_wildcard s"
proof (cases "strip_wildcard s = []")
  case True
  then show ?thesis by (simp add: strip_trailing_dots_def)
next
  case False
  then have "last (strip_wildcard s) = last s" by (auto simp: strip_wildcard_def split: if_splits)
  moreover have "s \<noteq> []"
    using False by (cases "startsWith s ''*.''") (auto simp: strip_wildcard_def)
  ultimately show ?thesis using assms False by (simp add: std_id_iff)
qed

lemma nd_of_clean:
  assumes "no_space s" "toLowerCase s = s" "strip_trailing_dots s = s"
  shows "normalizeDomain s = strip_wildcard s"
  using assms by (simp add: normalizeDomain_def trim_no_space std_sw)

lemma nd_na: "normalizeDomain (toLowerCase (trim a)) = normalizeDomain a"
  by (simp add: normalizeDomain_def trim_lower trim_idem toLowerCase_idem)

lemma endsWith_append: "endsWith (xs @ p) p"
  by (simp add: endsWith_def)

lemma endsWith_decomp: "endsWith s p \<Longrightarrow> \<exists>xs. s = xs @ p"
  by (metis append_take_drop_id endsWith_def)

lemma sw_nonempty:
  assumes "s \<noteq> []" "strip_trailing_dots s = s"
  shows "strip_wildcard s \<noteq> []"
proof
  assume e: "strip_wildcard s = []"
  have sw: "startsWith s ''*.'' \<and> drop 2 s = []"
    using e assms(1) by (cases "startsWith s ''*.''") (simp_all add: strip_wildcard_def)
  have t: "take 2 s = ''*.''" using sw by (simp add: startsWith_def numeral_2_eq_2)
  have "s = ''*.''" using t sw by (metis append_take_drop_id append_Nil2)
  then show False using assms(2) by (simp add: std_id_iff)
qed

lemma match_sw:
  assumes "H \<noteq> []" "D \<noteq> []" "strip_trailing_dots H = H" "strip_trailing_dots D = D"
    "H = D \<or> endsWith H (''.'' @ D)"
  shows "strip_wildcard H \<noteq> [] \<and> strip_wildcard D \<noteq> []
     \<and> (strip_wildcard H = strip_wildcard D \<or> endsWith (strip_wildcard H) (''.'' @ strip_wildcard D))"
proof -
  have ne: "strip_wildcard H \<noteq> []" "strip_wildcard D \<noteq> []"
    using assms sw_nonempty by simp_all
  show ?thesis
  proof (cases "H = D")
    case True
    then show ?thesis using ne by simp
  next
    case False
    then obtain P where H: "H = P @ ''.'' @ D" using assms(5) endsWith_decomp by blast
    show ?thesis
    proof (cases "startsWith D ''*.''")
      case True
      then have "take 2 D = ''*.''" by (simp add: startsWith_def numeral_2_eq_2)
      then have D: "D = ''*.'' @ drop 2 D" by (metis append_take_drop_id)
      have sD: "strip_wildcard D = drop 2 D" using True by (simp add: strip_wildcard_def)
      have "H = P @ ''.'' @ ''*.'' @ drop 2 D" using H D by simp
      then have H2: "H = (P @ ''.*'') @ (''.'' @ drop 2 D)" by simp
      have "endsWith H (''.'' @ drop 2 D)" using H2 endsWith_append by metis
      moreover have "drop 2 H = (drop 2 (P @ ''.*'')) @ (''.'' @ drop 2 D)"
      proof -
        define X where "X = P @ ''.*''"
        have "2 \<le> length X" by (simp add: X_def)
        then have "drop 2 (X @ (''.'' @ drop 2 D)) = drop 2 X @ (''.'' @ drop 2 D)" by simp
        then show ?thesis using H2 by (simp only: X_def)
      qed
      then have "endsWith (drop 2 H) (''.'' @ drop 2 D)" using endsWith_append by metis
      ultimately have "endsWith (strip_wildcard H) (''.'' @ strip_wildcard D)"
        using sD by (simp add: strip_wildcard_def)
      then show ?thesis using ne by simp
    next
      case nD: False
      then have sD: "strip_wildcard D = D" by (simp add: strip_wildcard_def)
      show ?thesis
      proof (cases "startsWith H ''*.''")
        case False
        then show ?thesis using ne sD assms(5) by (simp add: strip_wildcard_def)
      next
        case True
        then have sH: "strip_wildcard H = drop 2 H" by (simp add: strip_wildcard_def)
        have P: "P \<noteq> []" using True H by (auto simp: startsWith_def)
        show ?thesis
        proof (cases "length P = 1")
          case True
          then have "drop 2 H = D" using H by (cases P) simp_all
          then show ?thesis using ne sD sH by simp
        next
          case False
          then have "2 \<le> length P" using P by (cases P) (simp_all add: Suc_le_eq)
          then have "drop 2 H = drop 2 P @ (''.'' @ D)" using H by simp
          then have "endsWith (drop 2 H) (''.'' @ D)" using endsWith_append by metis
          then show ?thesis using ne sD sH by simp
        qed
      qed
    qed
  qed
qed

lemma endsWith_set: "endsWith h p \<Longrightarrow> set p \<subseteq> set h"
  using endsWith_decomp by fastforce

lemma hostMatches_normalized:
  assumes "no_space hn" "hostMatchesDomain hn a"
  shows "normalizeDomain hn \<noteq> [] \<and> toLowerCase (trim a) \<noteq> []
    \<and> hostMatchesDomain (normalizeDomain hn) (normalizeDomain (toLowerCase (trim a)))"
proof -
  let ?H = "normalizeDomain hn" and ?D = "normalizeDomain a"
  have m: "?H \<noteq> []" "?D \<noteq> []" "?H = ?D \<or> endsWith ?H (''.'' @ ?D)"
    using assms(2) by (simp_all add: hostMatchesDomain_def Let_def)
  have nsH: "no_space ?H" using assms(1) by (rule nd_no_space)
  have "set ?D \<subseteq> set ?H" using m(3) endsWith_set by fastforce
  then have nsD: "no_space ?D" using nsH by (auto simp: no_space_def)
  have ndH: "normalizeDomain ?H = strip_wildcard ?H" using nsH nd_lowered nd_std by (rule nd_of_clean)
  have ndD: "normalizeDomain ?D = strip_wildcard ?D" using nsD nd_lowered nd_std by (rule nd_of_clean)
  have na: "toLowerCase (trim a) \<noteq> []"
  proof
    assume "toLowerCase (trim a) = []"
    moreover have "normalizeDomain [] = []"
      by (simp add: normalizeDomain_def trim_def toLowerCase_def strip_wildcard_def startsWith_def strip_trailing_dots_def)
    ultimately have "normalizeDomain (toLowerCase (trim a)) = []" by simp
    then show False using m(2) by (simp add: nd_na)
  qed
  from match_sw[OF m(1) m(2) nd_std nd_std m(3)]
  show ?thesis using m(1) na by (simp add: hostMatchesDomain_def Let_def nd_na ndH ndD)
qed

subsection \<open>The bounded map\<close>

lemma map_has_keys: "map_has m k = (k \<in> set (map fst m))"
  by (simp add: map_has_def)

lemma map_delete_absent: "k \<notin> set (map fst m) \<Longrightarrow> map_delete m k = m"
  by (induction m) (auto simp: map_delete_def)

lemma map_delete_keys: "map fst (map_delete m k) = removeAll k (map fst m)"
  by (induction m) (auto simp: map_delete_def)

lemma inc_present:
  assumes "map_get m k = Some c"
  shows "inc n m k = (c + 1, map_delete m k @ [(k, c + 1)])"
proof -
  have h: "map_has m k" using assms by (auto simp: map_get_def map_has_def dest: map_of_SomeD intro: rev_image_eqI)
  have "\<not> map_has (map_delete m k) k" by (simp add: map_has_keys map_delete_keys)
  then show ?thesis using assms h by (simp add: inc_def map_set_def Let_def)
qed

lemma absent_get: "\<not> map_has m k \<Longrightarrow> map_get m k = None"
  by (simp add: map_has_def map_get_def map_of_eq_None_iff)

lemma inc_absent_room:
  assumes "\<not> map_has m k" "length m < n"
  shows "inc n m k = (1, m @ [(k, 1)])"
  using assms absent_get[OF assms(1)] by (simp add: inc_def map_set_def Let_def)

lemma inc_absent_full:
  assumes "\<not> map_has m k" "n \<le> length m" "distinct (map fst m)"
  shows "inc n m k = (1, tl m @ [(k, 1)])"
proof (cases m)
  case Nil
  then show ?thesis using assms absent_get[OF assms(1)] by (simp add: inc_def map_set_def Let_def map_has_def)
next
  case (Cons e r)
  have "fst e \<notin> set (map fst r)" using assms(3) Cons by simp
  then have d: "map_delete m (fst e) = r" using Cons map_delete_absent[of "fst e" r]
    by (simp add: map_delete_def)
  have "\<not> map_has r k" using assms(1) Cons by (simp add: map_has_def)
  then show ?thesis using assms(1,2) absent_get[OF assms(1)] d Cons
    by (simp add: inc_def map_set_def Let_def)
qed

lemma inc_keys:
  assumes "distinct (map fst m)"
  shows "map fst (snd (inc n m k)) =
     (if k \<in> set (map fst m) then removeAll k (map fst m) @ [k]
      else if n \<le> length m then tl (map fst m) @ [k] else map fst m @ [k])"
proof (cases "map_has m k")
  case True
  then have "map_of m k \<noteq> None" by (simp add: map_has_def map_of_eq_None_iff)
  then obtain c where "map_get m k = Some c" by (auto simp: map_get_def)
  then show ?thesis using True inc_present[of m k c n] by (simp add: map_has_keys map_delete_keys)
next
  case False
  then show ?thesis
    using inc_absent_room[of m k n] inc_absent_full[of m k n] assms
    by (cases "n \<le> length m") (simp_all add: map_has_keys map_tl)
qed

lemma remdups_snoc: "remdups (ks @ [k]) = removeAll k (remdups ks) @ [k]"
  by (induction ks) auto

lemma recency_step:
  assumes "distinct R" "0 < n"
  shows "drop (length (removeAll k R @ [k]) - n) (removeAll k R @ [k]) =
    (let K = drop (length R - n) R in
     if k \<in> set K then removeAll k K @ [k]
     else if n \<le> length K then tl K @ [k] else K @ [k])"
proof -
  define A where "A = take (length R - n) R"
  define K where "K = drop (length R - n) R"
  have R: "R = A @ K" by (simp add: A_def K_def)
  have lA: "length A = length R - n" by (simp add: A_def)
  have lK: "length K = min n (length R)" by (auto simp: K_def)
  have dA: "distinct A" "distinct K" "set A \<inter> set K = {}" using assms(1) R by auto
  show ?thesis
  proof (cases "k \<in> set K")
    case True
    then have kA: "k \<notin> set A" using dA by auto
    have rm: "removeAll k R = A @ removeAll k K" using R kA by simp
    have "length (removeAll k K) = length K - 1" using True dA(2) by (simp add: distinct_removeAll distinct_remove1_removeAll[symmetric] length_remove1)
    then have len: "length (removeAll k R @ [k]) = length R" using rm R True
      by (cases K) auto
    have "drop (length R - n) (A @ removeAll k K @ [k]) = removeAll k K @ [k]" using lA by simp
    then show ?thesis using True len rm by (simp add: K_def[symmetric] Let_def)
  next
    case False
    show ?thesis
    proof (cases "k \<in> set A")
      case kA: True
      then have "A \<noteq> []" by auto
      then have "0 < length A" by simp
      then have big: "n < length R" using lA by linarith
      then have lK': "length K = n" using lK by simp
      have rm: "removeAll k R = removeAll k A @ K" using R False by simp
      have lrA: "length (removeAll k A) = length A - 1" using kA dA(1)
        by (simp add: distinct_remove1_removeAll[symmetric] length_remove1)
      have len: "length (removeAll k R @ [k]) = length R" using rm R lrA kA \<open>A \<noteq> []\<close>
        by (cases A) auto
      have Kne: "K \<noteq> []" using lK' assms(2) by auto
      have "drop (length R - n) (removeAll k A @ K @ [k]) = drop 1 (K @ [k])"
        using lrA lA big by simp
      also have "\<dots> = tl K @ [k]" using Kne by (cases K) simp_all
      finally show ?thesis using False len rm lK' by (simp add: K_def[symmetric] Let_def)
    next
      case nA: False
      then have kR: "k \<notin> set R" using False R by simp
      then have rm: "removeAll k R = R" by simp
      show ?thesis
      proof (cases "n \<le> length R")
        case True
        then have lK': "length K = n" using lK by simp
        have Kne: "K \<noteq> []" using lK' assms(2) by auto
        have "drop (Suc (length R) - n) (R @ [k]) = drop (Suc (length R - n)) R @ [k]"
          using True assms(2) by (simp add: Suc_diff_le)
        also have "drop (Suc (length R - n)) R = tl K" by (simp add: K_def drop_Suc tl_drop)
        finally show ?thesis using False rm lK' by (simp add: K_def[symmetric] Let_def)
      next
        case F: False
        then have "K = R" by (simp add: K_def)
        then show ?thesis using False rm F by (simp add: K_def[symmetric] Let_def)
      qed
    qed
  qed
qed

lemma lru_after_snoc: "lru_after n (ks @ [k]) = snd (inc n (lru_after n ks) k)"
  by (simp add: lru_after_def)

lemma lru_after_keys:
  assumes "0 < n"
  shows "map fst (lru_after n ks) = drop (length (remdups ks) - n) (remdups ks)
       \<and> distinct (map fst (lru_after n ks))"
proof (induction ks rule: rev_induct)
  case Nil
  show ?case by (simp add: lru_after_def)
next
  case (snoc k ks)
  let ?m = "lru_after n ks"
  have d: "distinct (map fst ?m)" using snoc by simp
  have K: "map fst ?m = drop (length (remdups ks) - n) (remdups ks)" using snoc by simp
  have lenK: "length ?m = length (drop (length (remdups ks) - n) (remdups ks))"
    using K by (metis length_map)
  have "map fst (lru_after n (ks @ [k])) =
     (if k \<in> set (map fst ?m) then removeAll k (map fst ?m) @ [k]
      else if n \<le> length ?m then tl (map fst ?m) @ [k] else map fst ?m @ [k])"
    unfolding lru_after_snoc by (rule inc_keys[OF d])
  also have "\<dots> = drop (length (removeAll k (remdups ks) @ [k]) - n) (removeAll k (remdups ks) @ [k])"
    using recency_step[of "remdups ks" n k] assms lenK unfolding K Let_def by simp
  finally have 1: "map fst (lru_after n (ks @ [k])) = drop (length (remdups (ks @ [k])) - n) (remdups (ks @ [k]))"
    by (simp only: remdups_snoc)
  have "distinct (drop (length (remdups (ks @ [k])) - n) (remdups (ks @ [k])))"
    by (rule distinct_drop) simp
  then show ?case using 1 by simp
qed

lemma lru_after_length: "0 < n \<Longrightarrow> length (lru_after n ks) \<le> n"
proof -
  assume "0 < n"
  then have "map fst (lru_after n ks) = drop (length (remdups ks) - n) (remdups ks)"
    using lru_after_keys by blast
  then have "length (map fst (lru_after n ks)) = length (drop (length (remdups ks) - n) (remdups ks))"
    by simp
  then show ?thesis by simp
qed

lemma lru_evicts_by_recency_not_by_count:
  "lru_after 2 [''a'', ''a'', ''a'', ''b''] = [(''a'', 3), (''b'', 1)]
   \<and> inc 2 [(''a'', 3), (''b'', 1)] ''c'' = (1, [(''b'', 1), (''c'', 1)])"
  by code_simp

text \<open>
  Claim C8.  After any sequence \<open>ks\<close> of counted hosts the tracker holds at most 500 hosts,
  each once, and they are the 500 most recently counted ones in the order of their last
  count (\<open>remdups\<close> keeps the last occurrence of each host).  Counting a host that is present
  moves its entry to the end with its count raised by one and removes nothing else.
  Counting a new host when 500 are held removes the first entry, which is the host counted
  longest ago, whatever its count, leaves the other entries as they are and appends the new
  host with count 1.  Below 500 the new host is appended and nothing is removed.
\<close>

theorem blockedByHost_bounded_lru:
  "length (blockedByHost_after ks) \<le> 500
   \<and> distinct (map fst (blockedByHost_after ks))
   \<and> map fst (blockedByHost_after ks) = drop (length (remdups ks) - 500) (remdups ks)
   \<and> (\<forall>k c. map_get (blockedByHost_after ks) k = Some c \<longrightarrow>
         inc 500 (blockedByHost_after ks) k
           = (c + 1, map_delete (blockedByHost_after ks) k @ [(k, c + 1)]))
   \<and> (\<forall>k. \<not> map_has (blockedByHost_after ks) k \<and> length (blockedByHost_after ks) = 500 \<longrightarrow>
         inc 500 (blockedByHost_after ks) k = (1, tl (blockedByHost_after ks) @ [(k, 1)]))
   \<and> (\<forall>k. \<not> map_has (blockedByHost_after ks) k \<and> length (blockedByHost_after ks) < 500 \<longrightarrow>
         inc 500 (blockedByHost_after ks) k = (1, blockedByHost_after ks @ [(k, 1)]))"
proof -
  have p: "(0::nat) < 500" by simp
  have k: "map fst (lru_after 500 ks) = drop (length (remdups ks) - 500) (remdups ks)
       \<and> distinct (map fst (lru_after 500 ks))"
    using lru_after_keys[OF p] .
  have l: "length (lru_after 500 ks) \<le> 500" using lru_after_length[OF p] .
  show ?thesis
    unfolding blockedByHost_after_def
    using k l inc_present inc_absent_full inc_absent_room by (simp add: le_eq_less_or_eq)
qed

lemma hosts500_distinct: "distinct hosts500"
proof -
  have "inj_on (\<lambda>i. replicate (Suc i) CHR ''h'') (set [0..<500])"
    by (rule inj_onI) (metis length_replicate nat.inject)
  then show ?thesis by (simp only: hosts500_def distinct_map distinct_upt simp_thms)
qed

lemma hosts500_length: "length hosts500 = 500"
  by (simp only: hosts500_def length_map length_upt diff_zero)

lemma x_not_host: "''x'' \<notin> set hosts500"
proof
  assume "''x'' \<in> set hosts500"
  then have "''x'' \<in> (\<lambda>i. replicate (Suc i) CHR ''h'') ` set [0..<500]"
    by (simp only: hosts500_def set_map)
  then obtain i where "''x'' = replicate (Suc i) CHR ''h''" by (rule imageE)
  then show False by simp
qed

lemma h_host: "''h'' \<in> set hosts500"
proof -
  have "''h'' = (\<lambda>i. replicate (Suc i) CHR ''h'') 0" by simp
  moreover have "(0::nat) \<in> set [0..<500]" by (simp only: set_upt) simp
  ultimately have "''h'' \<in> (\<lambda>i. replicate (Suc i) CHR ''h'') ` set [0..<500]"
    by (rule image_eqI)
  then show ?thesis by (simp only: hosts500_def set_map)
qed

theorem blockedByHost_bounded_lru_witness:
  "map fst (blockedByHost_after hosts500) = hosts500
   \<and> length (blockedByHost_after hosts500) = 500
   \<and> \<not> map_has (blockedByHost_after hosts500) ''x''
   \<and> inc 500 (blockedByHost_after hosts500) ''x''
       = (1, tl (blockedByHost_after hosts500) @ [(''x'', 1)])
   \<and> (\<exists>c. map_get (blockedByHost_after hosts500) ''h'' = Some c
          \<and> inc 500 (blockedByHost_after hosts500) ''h''
              = (c + 1, map_delete (blockedByHost_after hosts500) ''h'' @ [(''h'', c + 1)]))
   \<and> \<not> map_has (blockedByHost_after []) ''x''
   \<and> length (blockedByHost_after []) < 500
   \<and> inc 500 (blockedByHost_after []) ''x'' = (1, blockedByHost_after [] @ [(''x'', 1)])"
proof -
  let ?m = "blockedByHost_after hosts500"
  note t = blockedByHost_bounded_lru [of hosts500]
  have k0: "map fst ?m = drop (length (remdups hosts500) - 500) (remdups hosts500)"
    using t by blast
  have r: "remdups hosts500 = hosts500" using hosts500_distinct by (rule distinct_remdups_id)
  have keys: "map fst ?m = hosts500"
    using k0 by (simp only: r hosts500_length diff_self_eq_0 drop_0)
  then have len: "length ?m = 500" using hosts500_length by (metis length_map)
  have nx: "\<not> map_has ?m ''x''" using keys x_not_host by (simp add: map_has_keys)
  have ix: "inc 500 ?m ''x'' = (1, tl ?m @ [(''x'', 1)])" using t nx len by blast
  have "''h'' \<in> set (map fst ?m)" using keys h_host by simp
  then have "map_of ?m ''h'' \<noteq> None" by (simp add: map_of_eq_None_iff)
  then obtain c where c: "map_get ?m ''h'' = Some c" by (auto simp: map_get_def)
  then have ih: "inc 500 ?m ''h'' = (c + 1, map_delete ?m ''h'' @ [(''h'', c + 1)])"
    using t by blast
  have e: "blockedByHost_after [] = []" by (simp add: blockedByHost_after_def lru_after_def)
  have e1: "\<not> map_has (blockedByHost_after []) ''x''" by (simp add: e map_has_def)
  have e2: "length (blockedByHost_after []) < 500" by (simp add: e)
  have e3: "inc 500 (blockedByHost_after []) ''x'' = (1, blockedByHost_after [] @ [(''x'', 1)])"
    using blockedByHost_bounded_lru [of "[]"] e1 e2 by blast
  show ?thesis using keys len nx ix c ih e1 e2 e3 by blast
qed

subsection \<open>Allowlist and documents\<close>

text \<open>
  Claim C5.  When the lower-cased URL of a request parses to a host name and that host
  name matches an entry of the configured allowlist, as \<open>hostMatchesDomain\<close> decides it
  (the same domain or a subdomain of it, after normalisation), \<open>evaluate\<close> on the cache
  compiled from the configuration answers \<^verbatim>\<open>{ block: false }\<close>, whatever the mode, the
  blocked resource types, the block patterns and the resource type of the request are.
\<close>

theorem allowlist_overrides_block_rules:
  assumes "hostname (toLowerCase (request_url req)) = Some hn"
    and "no_space hn"
    and "a \<in> set (allowlistDomains cfg)"
    and "hostMatchesDomain hn a"
  shows "evaluate hostname (buildCache cfg) req = allow
       \<and> \<not> block (evaluate hostname (buildCache cfg) req)"
proof -
  let ?d = "normalizeDomain (toLowerCase (trim a))"
  have n: "normalizeDomain hn \<noteq> [] \<and> toLowerCase (trim a) \<noteq> []
      \<and> hostMatchesDomain (normalizeDomain hn) ?d"
    using assms(2,4) by (rule hostMatches_normalized)
  have "toLowerCase (trim a) \<in> set (normalizeArray (allowlistDomains cfg))"
    using n assms(3) by (simp add: normalizeArray_def)
  then have "?d \<in> set (cache_allowlistDomains (buildCache cfg))"
    by (simp add: buildCache_def Let_def)
  then have "\<exists>d \<in> set (cache_allowlistDomains (buildCache cfg)).
      hostMatchesDomain (normalizeDomain hn) d"
    using n by blast
  then have "evaluate hostname (buildCache cfg) req = allow"
    using n assms(1) by (simp add: evaluate_def Let_def)
  then show ?thesis by (simp add: allow_def)
qed

lemma banner_blocked_without_allowlist:
  "blockRule (evaluate example_hostname
      (buildCache (allowlisting_config\<lparr>allowlistDomains := []\<rparr>)) banner_request)
    = Some ''type:image''"
  by code_simp

theorem allowlist_overrides_block_rules_witness:
  "example_hostname (toLowerCase (request_url banner_request)) = Some ''cdn.example.com''
   \<and> no_space ''cdn.example.com''
   \<and> hostMatchesDomain ''cdn.example.com'' ''*.Example.com''
   \<and> evaluate example_hostname (buildCache allowlisting_config) banner_request = allow
   \<and> blockRule (evaluate example_hostname
        (buildCache (allowlisting_config\<lparr>allowlistDomains := []\<rparr>)) banner_request)
      = Some ''type:image''"
proof -
  have 1: "example_hostname (toLowerCase (request_url banner_request)) = Some ''cdn.example.com''"
    by code_simp
  have 2: "no_space ''cdn.example.com''" by code_simp
  have 3: "''*.Example.com'' \<in> set (allowlistDomains allowlisting_config)"
    by (simp add: allowlisting_config_def)
  have 4: "hostMatchesDomain ''cdn.example.com'' ''*.Example.com''" by code_simp
  from allowlist_overrides_block_rules
         [of example_hostname banner_request "''cdn.example.com''" "''*.Example.com''"
             allowlisting_config, OF 1 2 3 4]
       1 2 4 banner_blocked_without_allowlist
  show ?thesis by blast
qed

lemma normalizeMode_cases: "normalizeMode m = ''balanced'' \<or> normalizeMode m = ''aggressive''"
  by (simp add: normalizeMode_def)

lemma default_types:
  "normalizeArray [''media''] = [''media'']"
  "normalizeArray [''image'', ''media'', ''font''] = [''image'', ''media'', ''font'']"
  by code_simp+

lemma default_blockedTypes:
  assumes "blockResourceTypes cfg = default_blockResourceTypes"
  shows "''document'' \<notin> set (blockedTypes (buildCache cfg))"
  using normalizeMode_cases [of "mode cfg"] assms
  by (auto simp add: buildCache_def Let_def default_blockResourceTypes_def default_types)

text \<open>
  Claim C6.  For a request whose resource type is \<open>document\<close>: if \<open>evaluate\<close> blocks it,
  then \<open>document\<close> is in the blocked types of the cache and the rule reported is the type
  rule; the domain patterns and the URL patterns of the cache have no effect on the decision;
  and with the default resource type lists (\<open>media\<close> for balanced; \<open>image\<close>, \<open>media\<close>, \<open>font\<close>
  for aggressive), whatever the mode and the other settings, the blocked types never hold
  \<open>document\<close> and the request is allowed.
\<close>

theorem document_blocked_only_by_type:
  assumes "toLowerCase (request_resourceType req) = ''document''"
  shows "(block (evaluate hostname c req) \<longrightarrow>
            ''document'' \<in> set (blockedTypes c)
          \<and> blockRule (evaluate hostname c req) = Some ''type:document'')
       \<and> evaluate hostname (c\<lparr>domainPatterns := dps, urlPatterns := ups\<rparr>) req
           = evaluate hostname c req
       \<and> (blockResourceTypes cfg = default_blockResourceTypes \<longrightarrow>
            ''document'' \<notin> set (blockedTypes (buildCache cfg))
          \<and> evaluate hostname (buildCache cfg) req = allow)"
proof -
  have a: "block (evaluate hostname c req) \<longrightarrow>
            ''document'' \<in> set (blockedTypes c)
          \<and> blockRule (evaluate hostname c req) = Some ''type:document''"
    using assms by (auto simp add: evaluate_def Let_def allow_def blocked_def split: if_splits)
  have b: "evaluate hostname (c\<lparr>domainPatterns := dps, urlPatterns := ups\<rparr>) req
           = evaluate hostname c req"
    using assms by (simp add: evaluate_def Let_def)
  have d: "''document'' \<notin> set (blockedTypes c') \<Longrightarrow> evaluate hostname c' req = allow" for c'
    using assms by (simp add: evaluate_def Let_def)
  show ?thesis using a b d default_blockedTypes by blast
qed

lemma document_blocked_by_type_rule:
  "block (evaluate example_hostname (buildCache document_blocking_config) pixel_document_request)"
  by code_simp

theorem document_blocked_only_by_type_witness:
  "toLowerCase (request_resourceType pixel_document_request) = ''document''
   \<and> evaluate example_hostname (buildCache default_config) pixel_document_request = allow
   \<and> blockRule (evaluate example_hostname (buildCache default_config) pixel_script_request)
       = Some ''domain:doubleclick.net''
   \<and> block (evaluate example_hostname (buildCache document_blocking_config)
        pixel_document_request)
   \<and> blockRule (evaluate example_hostname (buildCache document_blocking_config)
        pixel_document_request) = Some ''type:document''"
proof -
  have 1: "toLowerCase (request_resourceType pixel_document_request) = ''document''"
    by code_simp
  have 2: "blockResourceTypes default_config = default_blockResourceTypes"
    by (simp add: default_config_def)
  have 3: "blockRule (evaluate example_hostname (buildCache default_config) pixel_script_request)
       = Some ''domain:doubleclick.net''"
    by code_simp
  from document_blocked_only_by_type
         [of pixel_document_request example_hostname "buildCache default_config" "[]" "[]"
             default_config, OF 1] 2
  have 4: "evaluate example_hostname (buildCache default_config) pixel_document_request = allow"
    by blast
  from document_blocked_only_by_type
         [of pixel_document_request example_hostname "buildCache document_blocking_config"
             "[]" "[]" default_config, OF 1]
       document_blocked_by_type_rule
  have 5: "blockRule (evaluate example_hostname (buildCache document_blocking_config)
        pixel_document_request) = Some ''type:document''"
    by blast
  show ?thesis using 1 3 4 5 document_blocked_by_type_rule by blast
qed

section \<open>Properties of the tools\<close>

subsection \<open>Resolution order of click\<close>

lemma attempt_in_order_Cons:
  "attempt_in_order ok (s # ss) =
     (if ok s then ([s], True)
      else (s # fst (attempt_in_order ok ss), snd (attempt_in_order ok ss)))"
  by (simp add: case_prod_beta)

lemma attempt_in_order_take:
  "take (length (fst (attempt_in_order ok ss))) ss = fst (attempt_in_order ok ss)"
  by (induction ss) (simp_all add: attempt_in_order_Cons del: attempt_in_order.simps(2))

lemma attempt_in_order_done:
  "snd (attempt_in_order ok ss) \<Longrightarrow>
     fst (attempt_in_order ok ss) \<noteq> [] \<and> ok (last (fst (attempt_in_order ok ss)))"
  by (induction ss) (simp_all add: attempt_in_order_Cons del: attempt_in_order.simps(2) split: if_splits)

lemma attempt_in_order_exhausted:
  "\<not> snd (attempt_in_order ok ss) \<Longrightarrow>
     fst (attempt_in_order ok ss) = ss \<and> (\<forall>s \<in> set ss. \<not> ok s)"
  by (induction ss) (simp_all add: attempt_in_order_Cons del: attempt_in_order.simps(2) split: if_splits)

lemma attempt_in_order_failed_before:
  "\<forall>s \<in> set (butlast (fst (attempt_in_order ok ss))). \<not> ok s"
  by (induction ss) (simp_all add: attempt_in_order_Cons del: attempt_in_order.simps(2))

lemma attempt_in_order_all_fail:
  "(\<not> snd (attempt_in_order ok ss)) = (\<forall>s \<in> set ss. \<not> ok s)"
  by (induction ss) (simp_all add: attempt_in_order_Cons del: attempt_in_order.simps(2))

lemma click_strategies_order:
  "snd (click_strategies env item uid)
     = concat (map (strategy_calls item)
         (fst (attempt_in_order (strategy_succeeds env) (declared_strategies item))))
   \<and> (fst (click_strategies env item uid) = Inr ())
     = snd (attempt_in_order (strategy_succeeds env) (declared_strategies item))
   \<and> (\<forall>e. fst (click_strategies env item uid) = Inl e \<longrightarrow>
         (\<exists>cause. script_click env = Some cause
            \<and> e = Error (''All click strategies failed for '' @ uid @ '': '' @ message cause)))"
  by (auto simp add: click_strategies_def declared_strategies_def Let_def split: option.splits)

lemma click_after_strategies:
  assumes "find_element ctx uid = Some item" "page ctx"
  shows "(\<forall>e evs. click_strategies env item uid = (Inl e, evs) \<longrightarrow>
            click env ctx uid = (Inl e, ctx, evs))
       \<and> (\<forall>evs. click_strategies env item uid = (Inr (), evs) \<longrightarrow>
            (\<exists>r ctx' more. click env ctx uid = (Inr r, ctx', evs @ more)
               \<and> list_all after_click more \<and> lastSnapshot ctx' = None \<and> clicked r = uid))"
  using assms
  by (simp add: click_def Let_def split: prod.splits option.splits)

lemma click_events:
  assumes "find_element ctx uid = Some item" "page ctx"
  shows "(\<exists>more. snd (snd (click env ctx uid)) = snd (click_strategies env item uid) @ more
            \<and> list_all after_click more
            \<and> ((\<exists>e. fst (click env ctx uid) = Inl e) \<longrightarrow> more = []))
    \<and> ((\<exists>r. fst (click env ctx uid) = Inr r) = (fst (click_strategies env item uid) = Inr ()))
    \<and> (\<forall>e. fst (click env ctx uid) = Inl e \<longrightarrow> fst (click_strategies env item uid) = Inl e)"
proof (cases "click_strategies env item uid")
  case (Pair r evs)
  note a = click_after_strategies [OF assms, of env]
  show ?thesis
  proof (cases r)
    case (Inl e)
    then have "click env ctx uid = (Inl e, ctx, evs)" using a Pair by blast
    then show ?thesis using Pair Inl by simp
  next
    case (Inr u)
    then have "click_strategies env item uid = (Inr (), evs)" using Pair by simp
    then obtain r' ctx' more where "click env ctx uid = (Inr r', ctx', evs @ more)"
      "list_all after_click more" using a by blast
    then show ?thesis using Pair Inr by simp
  qed
qed

text \<open>
  Claim C4.  For an element of the current snapshot and an open page, the calls that \<open>click\<close>
  makes to the engine are, in this order: the captured selector scrolled into view and
  clicked; the click through role and label, when the element has both; the click on the
  text of the label, when it has one; the script-level click on the node of the captured
  selector.  The calls stop with the first strategy that succeeds, and a failure of one,
  whatever its error, moves on to the next; only tab switching and the link fallback may
  follow, and only after a success.  \<open>click\<close> succeeds exactly when one strategy does.  It
  raises an error exactly when all of them fail, and the error names the element identifier,
  followed by the message of the last failure.  In particular, when the element has a role
  and a label and only the script-level click can reach it, the three other strategies are
  called first, in order, and \<open>click\<close> succeeds.
\<close>

theorem click_strategy_order:
  assumes "find_element ctx uid = Some item" and "page ctx"
  shows "(\<exists>more. snd (snd (click env ctx uid))
              = concat (map (strategy_calls item)
                  (fst (attempt_in_order (strategy_succeeds env) (declared_strategies item))))
                @ more
            \<and> list_all after_click more
            \<and> ((\<exists>e. fst (click env ctx uid) = Inl e) \<longrightarrow> more = []))
       \<and> (\<exists>r. fst (click env ctx uid) = Inr r)
           = snd (attempt_in_order (strategy_succeeds env) (declared_strategies item))
       \<and> ((\<exists>e. fst (click env ctx uid) = Inl e)
           \<longleftrightarrow> (\<forall>s \<in> set (declared_strategies item). \<not> strategy_succeeds env s))
       \<and> (\<forall>e. fst (click env ctx uid) = Inl e \<longrightarrow>
             (\<exists>cause. script_click env = Some cause
                \<and> e = Error (''All click strategies failed for '' @ uid @ '': ''
                         @ message cause)))
       \<and> (el_role item \<noteq> [] \<and> el_name item \<noteq> [] \<and> \<not> selector_click env
            \<and> \<not> role_click env \<and> \<not> text_click env \<and> script_click env = None \<longrightarrow>
             (\<exists>r ctx' more. click env ctx uid
                = (Inr r, ctx',
                   [ScrollIntoView (el_selector item), LocatorClick (el_selector item),
                    RoleClick (el_role item) (el_name item), TextClick (el_name item),
                    ScriptClick (el_selector item)] @ more)
              \<and> list_all after_click more))
       \<and> (selector_click env \<longrightarrow>
             (\<exists>r ctx' more. click env ctx uid
                = (Inr r, ctx',
                   [ScrollIntoView (el_selector item), LocatorClick (el_selector item)] @ more)
              \<and> list_all after_click more))"
proof -
  note ce = click_events [OF assms, of env]
  note cs = click_strategies_order [of env item uid]
  note ca = click_after_strategies [OF assms, of env]
  have 1: "\<exists>more. snd (snd (click env ctx uid))
              = concat (map (strategy_calls item)
                  (fst (attempt_in_order (strategy_succeeds env) (declared_strategies item))))
                @ more
            \<and> list_all after_click more
            \<and> ((\<exists>e. fst (click env ctx uid) = Inl e) \<longrightarrow> more = [])"
    using ce cs by simp
  have 2: "(\<exists>r. fst (click env ctx uid) = Inr r)
           = snd (attempt_in_order (strategy_succeeds env) (declared_strategies item))"
    using ce cs by simp
  have "(\<exists>e. fst (click env ctx uid) = Inl e) = (\<not> (\<exists>r. fst (click env ctx uid) = Inr r))"
    by (cases "fst (click env ctx uid)") simp_all
  then have 3: "(\<exists>e. fst (click env ctx uid) = Inl e)
           \<longleftrightarrow> (\<forall>s \<in> set (declared_strategies item). \<not> strategy_succeeds env s)"
    using 2 attempt_in_order_all_fail [of "strategy_succeeds env" "declared_strategies item"]
    by simp
  have 4: "\<forall>e. fst (click env ctx uid) = Inl e \<longrightarrow>
             (\<exists>cause. script_click env = Some cause
                \<and> e = Error (''All click strategies failed for '' @ uid @ '': ''
                         @ message cause))"
    using ce cs by blast
  have 5: "el_role item \<noteq> [] \<and> el_name item \<noteq> [] \<and> \<not> selector_click env
            \<and> \<not> role_click env \<and> \<not> text_click env \<and> script_click env = None \<longrightarrow>
             (\<exists>r ctx' more. click env ctx uid
                = (Inr r, ctx',
                   [ScrollIntoView (el_selector item), LocatorClick (el_selector item),
                    RoleClick (el_role item) (el_name item), TextClick (el_name item),
                    ScriptClick (el_selector item)] @ more)
              \<and> list_all after_click more)"
  proof
    assume h: "el_role item \<noteq> [] \<and> el_name item \<noteq> [] \<and> \<not> selector_click env
            \<and> \<not> role_click env \<and> \<not> text_click env \<and> script_click env = None"
    then have "click_strategies env item uid
        = (Inr (), [ScrollIntoView (el_selector item), LocatorClick (el_selector item),
                    RoleClick (el_role item) (el_name item), TextClick (el_name item),
                    ScriptClick (el_selector item)])"
      by (simp add: click_strategies_def)
    then show "\<exists>r ctx' more. click env ctx uid
                = (Inr r, ctx',
                   [ScrollIntoView (el_selector item), LocatorClick (el_selector item),
                    RoleClick (el_role item) (el_name item), TextClick (el_name item),
                    ScriptClick (el_selector item)] @ more)
              \<and> list_all after_click more"
      using ca by blast
  qed
  have 6: "selector_click env \<longrightarrow>
             (\<exists>r ctx' more. click env ctx uid
                = (Inr r, ctx',
                   [ScrollIntoView (el_selector item), LocatorClick (el_selector item)] @ more)
              \<and> list_all after_click more)"
  proof
    assume "selector_click env"
    then have "click_strategies env item uid
        = (Inr (), [ScrollIntoView (el_selector item), LocatorClick (el_selector item)])"
      by (simp add: click_strategies_def)
    then show "\<exists>r ctx' more. click env ctx uid
                = (Inr r, ctx',
                   [ScrollIntoView (el_selector item), LocatorClick (el_selector item)] @ more)
              \<and> list_all after_click more"
      using ca by blast
  qed
  show ?thesis using 1 2 3 4 5 6 by blast
qed

lemma ctx_ready_el_2:
  "find_element ctx_ready ''el_2''
     = Some \<lparr>el_id = ''el_2'', el_selector = ''#go'', el_role = ''button'', el_name = ''Go'',
             el_href = None\<rparr>"
  by code_simp

lemma click_script_only_log:
  "snd (snd (click env_script_only ctx_ready ''el_2''))
     = [ScrollIntoView ''#go'', LocatorClick ''#go'', RoleClick ''button'' ''Go'',
        TextClick ''Go'', ScriptClick ''#go'']"
  by code_simp

lemma click_all_fail_error:
  "fst (click env_all_fail ctx_ready ''el_2'')
     = Inl (Error ''All click strategies failed for el_2: Element is not attached'')
   \<and> snd (snd (click env_all_fail ctx_ready ''el_2''))
     = [ScrollIntoView ''#go'', LocatorClick ''#go'', RoleClick ''button'' ''Go'',
        TextClick ''Go'', ScriptClick ''#go'']"
  by code_simp

lemma click_selector_log:
  "snd (snd (click env_selector_ok ctx_ready ''el_2''))
     = [ScrollIntoView ''#go'', LocatorClick ''#go'']"
  by code_simp

theorem click_strategy_order_witness:
  "find_element ctx_ready ''el_2''
     = Some \<lparr>el_id = ''el_2'', el_selector = ''#go'', el_role = ''button'', el_name = ''Go'',
             el_href = None\<rparr>
   \<and> page ctx_ready
   \<and> snd (snd (click env_script_only ctx_ready ''el_2''))
       = [ScrollIntoView ''#go'', LocatorClick ''#go'', RoleClick ''button'' ''Go'',
          TextClick ''Go'', ScriptClick ''#go'']
   \<and> (\<exists>r. fst (click env_script_only ctx_ready ''el_2'') = Inr r)
   \<and> snd (snd (click env_selector_ok ctx_ready ''el_2''))
       = [ScrollIntoView ''#go'', LocatorClick ''#go'']
   \<and> fst (click env_all_fail ctx_ready ''el_2'')
       = Inl (Error ''All click strategies failed for el_2: Element is not attached'')
   \<and> snd (snd (click env_all_fail ctx_ready ''el_2''))
       = [ScrollIntoView ''#go'', LocatorClick ''#go'', RoleClick ''button'' ''Go'',
          TextClick ''Go'', ScriptClick ''#go'']"
proof -
  have p: "page ctx_ready" by (simp add: ctx_ready_def)
  have s: "snd (attempt_in_order (strategy_succeeds env_script_only)
       (declared_strategies \<lparr>el_id = ''el_2'', el_selector = ''#go'', el_role = ''button'',
          el_name = ''Go'', el_href = None\<rparr>))"
    by code_simp
  from click_strategy_order [OF ctx_ready_el_2 p, of env_script_only] s
  have "\<exists>r. fst (click env_script_only ctx_ready ''el_2'') = Inr r" by blast
  then show ?thesis
    using ctx_ready_el_2 p click_script_only_log click_selector_log click_all_fail_error
    by blast
qed


subsection \<open>openLink\<close>

text \<open>
  Claim C10.  For an element of the current snapshot: when the link target that \<open>openLink\<close>
  resolves (the captured one, or else the one looked up in the live document) starts with
  \<open>javascript:\<close>, \<open>openLink\<close> throws, leaves the context as it was and makes no navigation
  call; when no target can be resolved it throws the error that names the element as having
  no href, again without navigating.
\<close>

theorem openLink_rejects_javascript_href:
  assumes "find_element ctx uid = Some item"
  shows "(\<forall>h. resolved_href env ctx item = Inr (Some h) \<and> startsWith h ''javascript:'' \<longrightarrow>
            fst (openLink env ctx uid) = Inl (Error ''Cannot navigate to javascript: href'')
          \<and> fst (snd (openLink env ctx uid)) = ctx
          \<and> filter is_goto (snd (snd (openLink env ctx uid))) = [])
       \<and> (resolved_href env ctx item = Inr None \<or> resolved_href env ctx item = Inr (Some [])
            \<longrightarrow>
            fst (openLink env ctx uid) = Inl (Error (''Element has no href: '' @ uid))
          \<and> fst (snd (openLink env ctx uid)) = ctx
          \<and> filter is_goto (snd (snd (openLink env ctx uid))) = [])"
  using assms
  by (auto simp add: openLink_def Let_def startsWith_def split: option.splits sum.splits)

lemma ctx_ready_el_3:
  "find_element ctx_ready ''el_3''
     = Some \<lparr>el_id = ''el_3'', el_selector = ''#run'', el_role = ''link'', el_name = ''Run'',
             el_href = Some ''javascript:void(0)''\<rparr>"
  by code_simp

lemma ctx_ready_el_4:
  "find_element ctx_ready ''el_4''
     = Some \<lparr>el_id = ''el_4'', el_selector = ''#nolink'', el_role = ''link'',
             el_name = ''Nowhere'', el_href = None\<rparr>"
  by code_simp

theorem openLink_rejects_javascript_href_witness:
  "resolved_href env_link ctx_ready
      \<lparr>el_id = ''el_3'', el_selector = ''#run'', el_role = ''link'', el_name = ''Run'',
        el_href = Some ''javascript:void(0)''\<rparr> = Inr (Some ''javascript:void(0)'')
   \<and> startsWith ''javascript:void(0)'' ''javascript:''
   \<and> fst (openLink env_link ctx_ready ''el_3'') = Inl (Error ''Cannot navigate to javascript: href'')
   \<and> filter is_goto (snd (snd (openLink env_link ctx_ready ''el_3''))) = []
   \<and> resolved_href env_link ctx_ready
      \<lparr>el_id = ''el_4'', el_selector = ''#nolink'', el_role = ''link'', el_name = ''Nowhere'',
        el_href = None\<rparr> = Inr None
   \<and> fst (openLink env_link ctx_ready ''el_4'') = Inl (Error ''Element has no href: el_4'')
   \<and> fst (snd (openLink env_link ctx_ready ''el_4'')) = ctx_ready"
proof -
  have r3: "resolved_href env_link ctx_ready
      \<lparr>el_id = ''el_3'', el_selector = ''#run'', el_role = ''link'', el_name = ''Run'',
        el_href = Some ''javascript:void(0)''\<rparr> = Inr (Some ''javascript:void(0)'')"
    by (simp add: resolved_href_def)
  have s3: "startsWith ''javascript:void(0)'' ''javascript:''" by code_simp
  have r4: "resolved_href env_link ctx_ready
      \<lparr>el_id = ''el_4'', el_selector = ''#nolink'', el_role = ''link'', el_name = ''Nowhere'',
        el_href = None\<rparr> = Inr None"
    by (simp add: resolved_href_def env_link_def ctx_ready_def)
  note t3 = openLink_rejects_javascript_href [OF ctx_ready_el_3, of env_link]
  note t4 = openLink_rejects_javascript_href [OF ctx_ready_el_4, of env_link]
  have a3: "fst (openLink env_link ctx_ready ''el_3'') = Inl (Error ''Cannot navigate to javascript: href'')
      \<and> filter is_goto (snd (snd (openLink env_link ctx_ready ''el_3''))) = []"
    using t3 r3 s3 by blast
  have a4: "fst (openLink env_link ctx_ready ''el_4'') = Inl (Error (''Element has no href: '' @ ''el_4''))
      \<and> fst (snd (openLink env_link ctx_ready ''el_4'')) = ctx_ready"
    using t4 r4 by blast
  show ?thesis using r3 s3 r4 a3 a4 by simp
qed


subsection \<open>The content of a snapshot\<close>

lemma read_nat_snoc: "read_nat (s @ [c]) = 10 * read_nat s + (of_char c - 48)"
  by (simp add: read_nat_def)

lemma read_nat_digit: "n < 10 \<Longrightarrow> read_nat [digit_char n] = n"
  by (simp add: read_nat_def)

lemma read_show_nat: "read_nat (show_nat n) = n"
proof (induction n rule: show_nat.induct)
  case (1 n)
  show ?case
  proof (cases "n < 10")
    case True
    then show ?thesis using read_nat_digit by (subst show_nat.simps) simp
  next
    case False
    have "read_nat (show_nat n) = 10 * read_nat (show_nat (n div 10)) + (n mod 10)"
      using False by (subst show_nat.simps) (simp add: read_nat_snoc)
    then show ?thesis using 1 False by simp
  qed
qed

lemma show_nat_inj: "(show_nat m = show_nat n) = (m = n)"
  by (metis read_show_nat)

lemma show_nat_0: "show_nat 0 = ''0''"
  by code_simp

text \<open>
  The elements of a snapshot are the first 120 elements of the page (300 when verbose), in
  the order of the page, the one at position \<open>i\<close> under the identifier \<open>el_i\<close>.
\<close>

lemma createSnapshot_elements:
  "elements (createSnapshot nodes verbose)
     = map (\<lambda>i. \<lparr>el_id = ''el_'' @ show_nat i, el_selector = node_selector (nodes ! i),
                  el_role = node_role (nodes ! i), el_name = node_name (nodes ! i),
                  el_href = node_href (nodes ! i)\<rparr>)
         [0..<min (if verbose then 300 else 120) (length nodes)]"
proof -
  define k :: nat where "k = (if verbose then 300 else 120)"
  define f where "f = (\<lambda>i (n :: node). \<lparr>el_id = ''el_'' @ show_nat i, el_selector = node_selector n,
                  el_role = node_role n, el_name = node_name n, el_href = node_href n\<rparr>)"
  have l: "length (take k nodes) = min k (length nodes)" by simp
  have "elements (createSnapshot nodes verbose)
      = map (\<lambda>(i, n). f i n) (zip [0..<length (take k nodes)] (take k nodes))"
    by (simp add: createSnapshot_def Let_def k_def f_def element_of_node_def)
  also have "\<dots> = map (\<lambda>i. f i (take k nodes ! i)) [0..<length (take k nodes)]"
    by (rule nth_equalityI) simp_all
  also have "\<dots> = map (\<lambda>i. f i (nodes ! i)) [0..<min k (length nodes)]"
    unfolding l by (rule map_cong) simp_all
  finally show ?thesis by (simp add: f_def k_def)
qed

lemma find_numbered:
  assumes "\<And>i j. (key (g i) = f j) = (i = j)"
  shows "i < n \<Longrightarrow> find (\<lambda>x. key x = f i) (map g [0..<n]) = Some (g i)"
    and "(\<forall>i<n. uid \<noteq> f i) \<Longrightarrow> find (\<lambda>x. key x = uid) (map g [0..<n]) = None"
proof -
  show "i < n \<Longrightarrow> find (\<lambda>x. key x = f i) (map g [0..<n]) = Some (g i)"
    unfolding find_Some_iff using assms by (intro exI[of _ i]) simp
next
  assume a: "\<forall>i<n. uid \<noteq> f i"
  have k: "\<And>i. key (g i) = f i" using assms by simp
  show "find (\<lambda>x. key x = uid) (map g [0..<n]) = None"
    unfolding find_None_iff using a k by auto
qed

lemma find_in_snapshot:
  assumes "elements snap
     = map (\<lambda>i. \<lparr>el_id = ''el_'' @ show_nat i, el_selector = node_selector (nodes ! i),
                  el_role = node_role (nodes ! i), el_name = node_name (nodes ! i),
                  el_href = node_href (nodes ! i)\<rparr>) [0..<n]"
    and "lastSnapshot ctx = Some snap"
  shows "\<forall>i<n. find_element ctx (''el_'' @ show_nat i)
           = Some \<lparr>el_id = ''el_'' @ show_nat i, el_selector = node_selector (nodes ! i),
                   el_role = node_role (nodes ! i), el_name = node_name (nodes ! i),
                   el_href = node_href (nodes ! i)\<rparr>"
    and "(\<forall>i<n. uid \<noteq> ''el_'' @ show_nat i) \<Longrightarrow> find_element ctx uid = None"
proof -
  define g where "g = (\<lambda>i. \<lparr>el_id = ''el_'' @ show_nat i, el_selector = node_selector (nodes ! i),
                  el_role = node_role (nodes ! i), el_name = node_name (nodes ! i),
                  el_href = node_href (nodes ! i)\<rparr>)"
  have k: "\<And>i j. (el_id (g i) = ''el_'' @ show_nat j) = (i = j)"
    by (simp add: g_def show_nat_inj)
  have e: "elements snap = map g [0..<n]" using assms(1) by (simp add: g_def)
  show "\<forall>i<n. find_element ctx (''el_'' @ show_nat i)
           = Some \<lparr>el_id = ''el_'' @ show_nat i, el_selector = node_selector (nodes ! i),
                   el_role = node_role (nodes ! i), el_name = node_name (nodes ! i),
                   el_href = node_href (nodes ! i)\<rparr>"
  proof (intro allI impI)
    fix i assume "i < n"
    from find_numbered(1) [of el_id g "\<lambda>j. ''el_'' @ show_nat j", OF k this]
    show "find_element ctx (''el_'' @ show_nat i)
           = Some \<lparr>el_id = ''el_'' @ show_nat i, el_selector = node_selector (nodes ! i),
                   el_role = node_role (nodes ! i), el_name = node_name (nodes ! i),
                   el_href = node_href (nodes ! i)\<rparr>"
      using assms(2) e by (simp add: find_element_def g_def)
  qed
  assume "\<forall>i<n. uid \<noteq> ''el_'' @ show_nat i"
  from find_numbered(2) [of el_id g "\<lambda>j. ''el_'' @ show_nat j", OF k this]
  show "find_element ctx uid = None"
    using assms(2) e by (simp add: find_element_def)
qed


subsection \<open>Rotation and the parts of navigate\<close>

lemma attemptGoto_page: "page ctx \<Longrightarrow> attemptGoto ctx u outcome = (outcome, [Goto u])"
  by (simp add: attemptGoto_def)

lemma attemptGoto_no_page:
  "\<not> page ctx \<Longrightarrow> attemptGoto ctx u outcome = (Some (TypeError ''goto''), [])"
  by (simp add: attemptGoto_def)

lemma no_page_error_not_tunnel:
  "\<not> js_includes (message (TypeError ''goto'')) ''ERR_TUNNEL_CONNECTION_FAILED''"
  by code_simp

lemma rotateBrowser_unavailable:
  "proxyManager ctx = None \<Longrightarrow> rotateBrowser lc now ctx = (Inr False, ctx, [])"
  by (simp add: rotateBrowser_def)

lemma rotateBrowser_report_throws:
  assumes "proxyManager ctx = Some pm" "proxyLaunchRaw ctx = Some r" "r \<noteq> []"
    "reportFailure pm r now = Inl e"
  shows "rotateBrowser lc now ctx = (Inl e, ctx, [ReportFailure r])"
  using assms by (simp add: rotateBrowser_def)

text \<open>
  The first step of a rotation: with a launched proxy, its failure is reported and the pool
  updated; with none, nothing is reported.
\<close>

lemma rotateBrowser_after_report:
  assumes "proxyManager ctx = Some pm"
    and "(\<exists>r b pm'. proxyLaunchRaw ctx = Some r \<and> r \<noteq> []
            \<and> reportFailure pm r now = Inr (b, pm')
            \<and> ctxF = ctx\<lparr>proxyManager := Some pm'\<rparr> \<and> evF = [ReportFailure r])
         \<or> ((proxyLaunchRaw ctx = None \<or> proxyLaunchRaw ctx = Some [])
            \<and> ctxF = ctx \<and> evF = [])"
  shows "rotateBrowser lc now ctx =
           (case ctx_close lc ctxF of
              (Some e, ctx2) \<Rightarrow> (Inl e, ctx2, evF @ [CallClose])
            | (None, ctx2) \<Rightarrow>
                (case ctx_init lc ctx2 of
                   (Some e, ctx3) \<Rightarrow> (Inl e, ctx3, evF @ [CallClose, CallInit])
                 | (None, ctx3) \<Rightarrow> (Inr True, ctx3, evF @ [CallClose, CallInit])))"
  using assms by (auto simp add: rotateBrowser_def)

lemma rotateBrowser_no_goto: "filter is_goto (snd (snd (rotateBrowser lc now ctx))) = []"
  by (auto simp add: rotateBrowser_def split: option.splits prod.splits sum.splits)

lemma rotateBrowser_false:
  "fst (rotateBrowser lc now ctx) = Inr False \<Longrightarrow> proxyManager ctx = None"
  by (auto simp add: rotateBrowser_def split: option.splits prod.splits sum.splits if_splits)

lemma navigate_attempt_no_page:
  "\<not> page ctx \<Longrightarrow> navigate_attempt lc env ctx u = (Some (TypeError ''goto''), ctx, [])"
  using no_page_error_not_tunnel by (simp add: navigate_attempt_def attemptGoto_no_page)

lemma navigate_attempt_first_ok:
  "page ctx \<Longrightarrow> goto_first env = None \<Longrightarrow> navigate_attempt lc env ctx u = (None, ctx, [Goto u])"
  by (simp add: navigate_attempt_def attemptGoto_page)

lemma navigate_attempt_other_error:
  assumes "page ctx" "goto_first env = Some navErr"
    "\<not> js_includes (message navErr) ''ERR_TUNNEL_CONNECTION_FAILED'' \<or> proxyManager ctx = None"
  shows "navigate_attempt lc env ctx u = (Some navErr, ctx, [Goto u])"
  using assms by (auto simp add: navigate_attempt_def attemptGoto_page rotateBrowser_unavailable)

lemma navigate_attempt_tunnel:
  assumes "page ctx" "goto_first env = Some navErr"
    "js_includes (message navErr) ''ERR_TUNNEL_CONNECTION_FAILED''"
  shows "navigate_attempt lc env ctx u =
           (case rotateBrowser lc (nav_now env) ctx of
              (Inl e, ctx2, ev) \<Rightarrow> (Some e, ctx2, [Goto u] @ ev)
            | (Inr rotated, ctx2, ev) \<Rightarrow>
                if rotated
                then (case attemptGoto ctx2 u (goto_retry env) of
                        (res, ev2) \<Rightarrow> (res, ctx2, [Goto u] @ ev @ ev2))
                else (Some navErr, ctx2, [Goto u] @ ev))"
  using assms by (simp add: navigate_attempt_def attemptGoto_page)

lemma navigate_attempt_cases:
  obtains
    (no_page) "\<not> page ctx"
      "navigate_attempt lc env ctx u = (Some (TypeError ''goto''), ctx, [])"
  | (first_ok) "page ctx" "navigate_attempt lc env ctx u = (None, ctx, [Goto u])"
  | (thrown) e ctx2 ev where
      "navigate_attempt lc env ctx u = (Some e, ctx2, [Goto u] @ ev)" "filter is_goto ev = []"
  | (retried) res ctx2 ev where "page ctx2"
      "navigate_attempt lc env ctx u = (res, ctx2, [Goto u] @ ev @ [Goto u])"
      "filter is_goto ev = []"
proof (cases "page ctx")
  case False
  then show ?thesis using no_page navigate_attempt_no_page by blast
next
  case True
  note p = True
  show ?thesis
  proof (cases "goto_first env")
    case None
    then show ?thesis using first_ok p navigate_attempt_first_ok by blast
  next
    case (Some navErr)
    show ?thesis
    proof (cases "js_includes (message navErr) ''ERR_TUNNEL_CONNECTION_FAILED''")
      case False
      then have "navigate_attempt lc env ctx u = (Some navErr, ctx, [Goto u] @ [])"
        using navigate_attempt_other_error [OF p Some, of lc u] by simp
      then show ?thesis using thrown [of navErr ctx "[]"] by simp
    next
      case True
      note t = navigate_attempt_tunnel [OF p Some True, of lc u]
      obtain rr ctx2 ev where rb: "rotateBrowser lc (nav_now env) ctx = (rr, ctx2, ev)"
        by (metis prod_cases3)
      have g: "filter is_goto ev = []"
        using rotateBrowser_no_goto [of lc "nav_now env" ctx] rb by simp
      show ?thesis
      proof (cases rr)
        case (Inl e)
        then have "navigate_attempt lc env ctx u = (Some e, ctx2, [Goto u] @ ev)"
          using t rb by simp
        then show ?thesis using thrown g by blast
      next
        case (Inr rotated)
        show ?thesis
        proof (cases rotated)
          case False
          then have "navigate_attempt lc env ctx u = (Some navErr, ctx2, [Goto u] @ ev)"
            using t rb Inr by simp
          then show ?thesis using thrown g by blast
        next
          case True
          note r = True
          show ?thesis
          proof (cases "page ctx2")
            case False
            then have "navigate_attempt lc env ctx u
                = (Some (TypeError ''goto''), ctx2, [Goto u] @ ev)"
              using t rb Inr r by (simp add: attemptGoto_no_page)
            then show ?thesis using thrown g by blast
          next
            case True
            then have "navigate_attempt lc env ctx u
                = (goto_retry env, ctx2, [Goto u] @ ev @ [Goto u])"
              using t rb Inr r by (simp add: attemptGoto_page)
            then show ?thesis using retried True g by blast
          qed
        qed
      qed
    qed
  qed
qed

lemma navigate_attempt_gotos:
  "length (filter is_goto (snd (snd (navigate_attempt lc env ctx u)))) \<le> 2"
  by (cases rule: navigate_attempt_cases [of ctx lc env u]) simp_all

lemma navigate_started:
  assumes "page ctx \<and> ctx1 = ctx \<and> ev0 = []
         \<or> \<not> page ctx \<and> ctx_init lc ctx = (None, ctx1) \<and> ev0 = [CallInit]"
  shows "navigate lc env ctx u =
           (case navigate_attempt lc env ctx1 u of
              (Some e, ctx2, ev) \<Rightarrow> (Inl e, ctx2, ev0 @ ev)
            | (None, ctx2, ev) \<Rightarrow> navigate_finish env ctx2 (ev0 @ ev))"
  using assms by (auto simp add: navigate_def)

lemma navigate_init_throws:
  "\<not> page ctx \<Longrightarrow> ctx_init lc ctx = (Some e, c) \<Longrightarrow> navigate lc env ctx u = (Inl e, c, [CallInit])"
  by (simp add: navigate_def)

lemma navigate_finish_events: "snd (snd (navigate_finish env c evs)) = evs @ [TakeSnapshot]"
  by (simp add: navigate_finish_def Let_def split: sum.splits option.splits)

text \<open>
  What the last part of \<open>navigate\<close> does when the snapshot script returns: the current URL
  is the URL of the page, it joins the visited set unless empty, and the snapshot of the
  context holds the first 120 elements of the page under the identifiers \<open>el_0\<close>, \<open>el_1\<close>
  and so on.
\<close>

lemma navigate_finish_result:
  assumes "nav_nodes env = Inr nodes"
  shows "\<exists>r c' snap. navigate_finish env c evs = (Inr r, c', evs @ [TakeSnapshot])
     \<and> nav_url r = nav_page_url env
     \<and> nav_elementCount r = min 120 (length nodes)
     \<and> currentUrl c' = nav_page_url env
     \<and> visitedUrls c' = (if nav_page_url env = [] then visitedUrls c
                          else insert (nav_page_url env) (visitedUrls c))
     \<and> lastSnapshot c' = Some snap
     \<and> elements snap
         = map (\<lambda>i. \<lparr>el_id = ''el_'' @ show_nat i, el_selector = node_selector (nodes ! i),
                      el_role = node_role (nodes ! i), el_name = node_name (nodes ! i),
                      el_href = node_href (nodes ! i)\<rparr>)
             [0..<min 120 (length nodes)]"
proof -
  have e: "elements (createSnapshot nodes False)
         = map (\<lambda>i. \<lparr>el_id = ''el_'' @ show_nat i, el_selector = node_selector (nodes ! i),
                      el_role = node_role (nodes ! i), el_name = node_name (nodes ! i),
                      el_href = node_href (nodes ! i)\<rparr>)
             [0..<min 120 (length nodes)]"
    using createSnapshot_elements [of nodes False] by simp
  have l: "length (elements (createSnapshot nodes False)) = min 120 (length nodes)"
    unfolding e by simp
  show ?thesis
    using assms e l
    by (auto simp add: navigate_finish_def Let_def addVisitedUrl_def split: option.splits)
qed

lemma navigate_finish_snapshot_throws:
  "nav_nodes env = Inl e \<Longrightarrow> fst (navigate_finish env c evs) = Inl e"
  by (simp add: navigate_finish_def Let_def)

lemma navigate_success_is_finish:
  assumes "fst (navigate lc env ctx u) = Inr r"
  shows "\<exists>c evs. navigate lc env ctx u = navigate_finish env c evs"
proof -
  obtain e0 ctx1 ev0 where i: "(if page ctx then (None, ctx, [])
            else (case ctx_init lc ctx of (e, c) \<Rightarrow> (e, c, [CallInit]))) = (e0, ctx1, ev0)"
    by (metis prod_cases3)
  obtain e1 ctx2 ev where a: "navigate_attempt lc env ctx1 u = (e1, ctx2, ev)"
    by (metis prod_cases3)
  show ?thesis
  proof (cases e0)
    case (Some e)
    then show ?thesis using assms i unfolding navigate_def by simp
  next
    case None
    note n0 = None
    show ?thesis
    proof (cases e1)
      case None
      then show ?thesis using i n0 a unfolding navigate_def by auto
    next
      case (Some e)
      then show ?thesis using assms i n0 a unfolding navigate_def by simp
    qed
  qed
qed

lemma navigate_fresh_snapshot:
  assumes "fst (navigate lc env ctx u) = Inr r"
  shows "\<exists>nodes snap. nav_nodes env = Inr nodes
     \<and> lastSnapshot (fst (snd (navigate lc env ctx u))) = Some snap
     \<and> elements snap
         = map (\<lambda>i. \<lparr>el_id = ''el_'' @ show_nat i, el_selector = node_selector (nodes ! i),
                      el_role = node_role (nodes ! i), el_name = node_name (nodes ! i),
                      el_href = node_href (nodes ! i)\<rparr>)
             [0..<min 120 (length nodes)]
     \<and> currentUrl (fst (snd (navigate lc env ctx u))) = nav_page_url env
     \<and> (nav_page_url env \<noteq> [] \<longrightarrow>
           nav_page_url env \<in> visitedUrls (fst (snd (navigate lc env ctx u))))
     \<and> nav_url r = nav_page_url env
     \<and> nav_elementCount r = min 120 (length nodes)"
proof -
  obtain c evs where e: "navigate lc env ctx u = navigate_finish env c evs"
    using navigate_success_is_finish [OF assms] by blast
  then have f: "fst (navigate_finish env c evs) = Inr r" using assms by simp
  obtain nodes where n: "nav_nodes env = Inr nodes"
    using f navigate_finish_snapshot_throws [of env _ c evs] by (cases "nav_nodes env") auto
  from navigate_finish_result [OF n, of c evs] f show ?thesis using e n by auto
qed


subsection \<open>The snapshot after an action\<close>

lemma no_snapshot_not_found:
  assumes "lastSnapshot ctx = None"
  shows "click cenv ctx uid = (Inl (not_found uid), ctx, [])"
    and "fill fenv ctx uid txt = (Inl (not_found uid), ctx, [])"
    and "openLink lenv ctx uid = (Inl (not_found uid), ctx, [])"
  using assms by (simp_all add: click_def fill_def openLink_def find_element_def)

lemma click_clears_snapshot:
  assumes "fst (click env ctx uid) = Inr r"
  shows "lastSnapshot (fst (snd (click env ctx uid))) = None"
proof (cases "find_element ctx uid")
  case None
  then show ?thesis using assms by (simp add: click_def)
next
  case (Some item)
  show ?thesis
  proof (cases "page ctx")
    case False
    then show ?thesis using assms Some by (simp add: click_def)
  next
    case True
    obtain res evs where cs: "click_strategies env item uid = (res, evs)"
      by (cases "click_strategies env item uid")
    show ?thesis
    proof (cases res)
      case (Inl e)
      then have "click env ctx uid = (Inl e, ctx, evs)"
        using click_after_strategies [OF Some True, of env] cs by blast
      then show ?thesis using assms by simp
    next
      case (Inr u)
      then have "click_strategies env item uid = (Inr (), evs)" using cs by simp
      then obtain r' ctx' more where "click env ctx uid = (Inr r', ctx', evs @ more)"
        "lastSnapshot ctx' = None"
        using click_after_strategies [OF Some True, of env] by blast
      then show ?thesis by simp
    qed
  qed
qed

lemma scroll_clears_snapshot:
  assumes "fst (scroll env ctx dir dist) = Inr d"
  shows "lastSnapshot (fst (snd (scroll env ctx dir dist))) = None"
  using assms by (auto simp add: scroll_def Let_def split: sum.splits option.splits if_splits)

lemma fill_keeps_context: "fst (snd (fill env ctx uid txt)) = ctx"
  by (simp add: fill_def Let_def split: option.splits)

text \<open>
  Claim C3, as the code has it.  A \<open>click\<close> or a \<open>scroll\<close> that succeeds sets the snapshot
  of the context to null, and then every \<open>click\<close>, \<open>fill\<close> and \<open>openLink\<close>, for every
  identifier, fails with the not-found error, leaves the context as it is and calls nothing.
  A \<open>navigate\<close> that succeeds replaces the snapshot by a fresh one of the new page: it holds
  the first 120 elements of that page, in order, numbered again from \<open>el_0\<close>.  Each of these
  identifiers then resolves to the element of the new page at its position, whatever it named
  before, and every other identifier gets the not-found error.  \<open>fill\<close> leaves the context,
  and so the snapshot, as it was.
\<close>

theorem snapshot_invalidation:
  "(\<forall>r. fst (click cenv ctx uid) = Inr r \<longrightarrow>
       lastSnapshot (fst (snd (click cenv ctx uid))) = None
     \<and> click cenv' (fst (snd (click cenv ctx uid))) uid'
         = (Inl (not_found uid'), fst (snd (click cenv ctx uid)), [])
     \<and> fill fenv' (fst (snd (click cenv ctx uid))) uid' txt'
         = (Inl (not_found uid'), fst (snd (click cenv ctx uid)), [])
     \<and> openLink lenv' (fst (snd (click cenv ctx uid))) uid'
         = (Inl (not_found uid'), fst (snd (click cenv ctx uid)), []))
   \<and> (\<forall>d. fst (scroll senv ctx dir dist) = Inr d \<longrightarrow>
       lastSnapshot (fst (snd (scroll senv ctx dir dist))) = None
     \<and> click cenv' (fst (snd (scroll senv ctx dir dist))) uid'
         = (Inl (not_found uid'), fst (snd (scroll senv ctx dir dist)), [])
     \<and> fill fenv' (fst (snd (scroll senv ctx dir dist))) uid' txt'
         = (Inl (not_found uid'), fst (snd (scroll senv ctx dir dist)), [])
     \<and> openLink lenv' (fst (snd (scroll senv ctx dir dist))) uid'
         = (Inl (not_found uid'), fst (snd (scroll senv ctx dir dist)), []))
   \<and> (\<forall>r. fst (navigate lc nenv ctx u) = Inr r \<longrightarrow>
       (\<exists>nodes snap. nav_nodes nenv = Inr nodes
          \<and> lastSnapshot (fst (snd (navigate lc nenv ctx u))) = Some snap
          \<and> elements snap
              = map (\<lambda>i. \<lparr>el_id = ''el_'' @ show_nat i, el_selector = node_selector (nodes ! i),
                           el_role = node_role (nodes ! i), el_name = node_name (nodes ! i),
                           el_href = node_href (nodes ! i)\<rparr>)
                  [0..<min 120 (length nodes)]
          \<and> (\<forall>i<min 120 (length nodes).
                find_element (fst (snd (navigate lc nenv ctx u))) (''el_'' @ show_nat i)
                  = Some \<lparr>el_id = ''el_'' @ show_nat i, el_selector = node_selector (nodes ! i),
                          el_role = node_role (nodes ! i), el_name = node_name (nodes ! i),
                          el_href = node_href (nodes ! i)\<rparr>)
          \<and> (nodes \<noteq> [] \<longrightarrow>
                find_element (fst (snd (navigate lc nenv ctx u))) ''el_0''
                  = Some \<lparr>el_id = ''el_0'', el_selector = node_selector (nodes ! 0),
                          el_role = node_role (nodes ! 0), el_name = node_name (nodes ! 0),
                          el_href = node_href (nodes ! 0)\<rparr>)
          \<and> ((\<forall>i<min 120 (length nodes). uid' \<noteq> ''el_'' @ show_nat i) \<longrightarrow>
                click cenv' (fst (snd (navigate lc nenv ctx u))) uid'
                  = (Inl (not_found uid'), fst (snd (navigate lc nenv ctx u)), [])
              \<and> fill fenv' (fst (snd (navigate lc nenv ctx u))) uid' txt'
                  = (Inl (not_found uid'), fst (snd (navigate lc nenv ctx u)), [])
              \<and> openLink lenv' (fst (snd (navigate lc nenv ctx u))) uid'
                  = (Inl (not_found uid'), fst (snd (navigate lc nenv ctx u)), []))))
   \<and> fst (snd (fill fenv ctx uid txt)) = ctx"
proof -
  have c: "\<forall>r. fst (click cenv ctx uid) = Inr r \<longrightarrow>
       lastSnapshot (fst (snd (click cenv ctx uid))) = None
     \<and> click cenv' (fst (snd (click cenv ctx uid))) uid'
         = (Inl (not_found uid'), fst (snd (click cenv ctx uid)), [])
     \<and> fill fenv' (fst (snd (click cenv ctx uid))) uid' txt'
         = (Inl (not_found uid'), fst (snd (click cenv ctx uid)), [])
     \<and> openLink lenv' (fst (snd (click cenv ctx uid))) uid'
         = (Inl (not_found uid'), fst (snd (click cenv ctx uid)), [])"
    using click_clears_snapshot no_snapshot_not_found by blast
  have s: "\<forall>d. fst (scroll senv ctx dir dist) = Inr d \<longrightarrow>
       lastSnapshot (fst (snd (scroll senv ctx dir dist))) = None
     \<and> click cenv' (fst (snd (scroll senv ctx dir dist))) uid'
         = (Inl (not_found uid'), fst (snd (scroll senv ctx dir dist)), [])
     \<and> fill fenv' (fst (snd (scroll senv ctx dir dist))) uid' txt'
         = (Inl (not_found uid'), fst (snd (scroll senv ctx dir dist)), [])
     \<and> openLink lenv' (fst (snd (scroll senv ctx dir dist))) uid'
         = (Inl (not_found uid'), fst (snd (scroll senv ctx dir dist)), [])"
    using scroll_clears_snapshot no_snapshot_not_found by blast
  have n: "\<forall>r. fst (navigate lc nenv ctx u) = Inr r \<longrightarrow>
       (\<exists>nodes snap. nav_nodes nenv = Inr nodes
          \<and> lastSnapshot (fst (snd (navigate lc nenv ctx u))) = Some snap
          \<and> elements snap
              = map (\<lambda>i. \<lparr>el_id = ''el_'' @ show_nat i, el_selector = node_selector (nodes ! i),
                           el_role = node_role (nodes ! i), el_name = node_name (nodes ! i),
                           el_href = node_href (nodes ! i)\<rparr>)
                  [0..<min 120 (length nodes)]
          \<and> (\<forall>i<min 120 (length nodes).
                find_element (fst (snd (navigate lc nenv ctx u))) (''el_'' @ show_nat i)
                  = Some \<lparr>el_id = ''el_'' @ show_nat i, el_selector = node_selector (nodes ! i),
                          el_role = node_role (nodes ! i), el_name = node_name (nodes ! i),
                          el_href = node_href (nodes ! i)\<rparr>)
          \<and> (nodes \<noteq> [] \<longrightarrow>
                find_element (fst (snd (navigate lc nenv ctx u))) ''el_0''
                  = Some \<lparr>el_id = ''el_0'', el_selector = node_selector (nodes ! 0),
                          el_role = node_role (nodes ! 0), el_name = node_name (nodes ! 0),
                          el_href = node_href (nodes ! 0)\<rparr>)
          \<and> ((\<forall>i<min 120 (length nodes). uid' \<noteq> ''el_'' @ show_nat i) \<longrightarrow>
                click cenv' (fst (snd (navigate lc nenv ctx u))) uid'
                  = (Inl (not_found uid'), fst (snd (navigate lc nenv ctx u)), [])
              \<and> fill fenv' (fst (snd (navigate lc nenv ctx u))) uid' txt'
                  = (Inl (not_found uid'), fst (snd (navigate lc nenv ctx u)), [])
              \<and> openLink lenv' (fst (snd (navigate lc nenv ctx u))) uid'
                  = (Inl (not_found uid'), fst (snd (navigate lc nenv ctx u)), [])))"
  proof (intro allI impI)
    fix r assume "fst (navigate lc nenv ctx u) = Inr r"
    define ctx' where "ctx' = fst (snd (navigate lc nenv ctx u))"
    from navigate_fresh_snapshot [OF \<open>fst (navigate lc nenv ctx u) = Inr r\<close>]
    obtain nodes snap where ns: "nav_nodes nenv = Inr nodes"
      "lastSnapshot ctx' = Some snap"
      "elements snap
         = map (\<lambda>i. \<lparr>el_id = ''el_'' @ show_nat i, el_selector = node_selector (nodes ! i),
                      el_role = node_role (nodes ! i), el_name = node_name (nodes ! i),
                      el_href = node_href (nodes ! i)\<rparr>)
             [0..<min 120 (length nodes)]"
      unfolding ctx'_def by blast
    note f = find_in_snapshot [OF ns(3) ns(2)]
    have f0: "nodes \<noteq> [] \<longrightarrow>
                find_element ctx' ''el_0''
                  = Some \<lparr>el_id = ''el_0'', el_selector = node_selector (nodes ! 0),
                          el_role = node_role (nodes ! 0), el_name = node_name (nodes ! 0),
                          el_href = node_href (nodes ! 0)\<rparr>"
    proof
      assume "nodes \<noteq> []"
      then have "0 < min 120 (length nodes)" by simp
      then show "find_element ctx' ''el_0''
                  = Some \<lparr>el_id = ''el_0'', el_selector = node_selector (nodes ! 0),
                          el_role = node_role (nodes ! 0), el_name = node_name (nodes ! 0),
                          el_href = node_href (nodes ! 0)\<rparr>"
        using f(1) show_nat_0 by fastforce
    qed
    have nf: "(\<forall>i<min 120 (length nodes). uid' \<noteq> ''el_'' @ show_nat i) \<longrightarrow>
                click cenv' ctx' uid' = (Inl (not_found uid'), ctx', [])
              \<and> fill fenv' ctx' uid' txt' = (Inl (not_found uid'), ctx', [])
              \<and> openLink lenv' ctx' uid' = (Inl (not_found uid'), ctx', [])"
    proof
      assume "\<forall>i<min 120 (length nodes). uid' \<noteq> ''el_'' @ show_nat i"
      then have "find_element ctx' uid' = None" using f(2) by blast
      then show "click cenv' ctx' uid' = (Inl (not_found uid'), ctx', [])
              \<and> fill fenv' ctx' uid' txt' = (Inl (not_found uid'), ctx', [])
              \<and> openLink lenv' ctx' uid' = (Inl (not_found uid'), ctx', [])"
        by (simp add: click_def fill_def openLink_def)
    qed
    show "\<exists>nodes snap. nav_nodes nenv = Inr nodes
          \<and> lastSnapshot (fst (snd (navigate lc nenv ctx u))) = Some snap
          \<and> elements snap
              = map (\<lambda>i. \<lparr>el_id = ''el_'' @ show_nat i, el_selector = node_selector (nodes ! i),
                           el_role = node_role (nodes ! i), el_name = node_name (nodes ! i),
                           el_href = node_href (nodes ! i)\<rparr>)
                  [0..<min 120 (length nodes)]
          \<and> (\<forall>i<min 120 (length nodes).
                find_element (fst (snd (navigate lc nenv ctx u))) (''el_'' @ show_nat i)
                  = Some \<lparr>el_id = ''el_'' @ show_nat i, el_selector = node_selector (nodes ! i),
                          el_role = node_role (nodes ! i), el_name = node_name (nodes ! i),
                          el_href = node_href (nodes ! i)\<rparr>)
          \<and> (nodes \<noteq> [] \<longrightarrow>
                find_element (fst (snd (navigate lc nenv ctx u))) ''el_0''
                  = Some \<lparr>el_id = ''el_0'', el_selector = node_selector (nodes ! 0),
                          el_role = node_role (nodes ! 0), el_name = node_name (nodes ! 0),
                          el_href = node_href (nodes ! 0)\<rparr>)
          \<and> ((\<forall>i<min 120 (length nodes). uid' \<noteq> ''el_'' @ show_nat i) \<longrightarrow>
                click cenv' (fst (snd (navigate lc nenv ctx u))) uid'
                  = (Inl (not_found uid'), fst (snd (navigate lc nenv ctx u)), [])
              \<and> fill fenv' (fst (snd (navigate lc nenv ctx u))) uid' txt'
                  = (Inl (not_found uid'), fst (snd (navigate lc nenv ctx u)), [])
              \<and> openLink lenv' (fst (snd (navigate lc nenv ctx u))) uid'
                  = (Inl (not_found uid'), fst (snd (navigate lc nenv ctx u)), []))"
      using ns f(1) f0 nf unfolding ctx'_def by blast
  qed
  show ?thesis using c s n fill_keeps_context by blast
qed

lemma click_go_succeeds:
  "fst (click env_selector_ok ctx_ready ''el_2'')
     = Inr \<lparr>clicked = ''el_2'', newTabOpened = False, click_url = ''https://example.com/#done''\<rparr>"
  by code_simp

lemma scroll_down_succeeds: "fst (scroll env_scroll_ok ctx_ready [] 0) = Inr ''down''"
  by code_simp

lemma navigate_shop_succeeds:
  "fst (navigate example_lifecycle env_nav_ok ctx_ready ''https://shop.example/'')
     = Inr \<lparr>nav_url = ''https://shop.example/'', nav_snapshot = ''el_0 [button] Accept'',
             nav_elementCount = 1\<rparr>"
  by code_simp

theorem snapshot_invalidation_witness:
  "fst (click env_selector_ok ctx_ready ''el_2'')
     = Inr \<lparr>clicked = ''el_2'', newTabOpened = False, click_url = ''https://example.com/#done''\<rparr>
   \<and> lastSnapshot (fst (snd (click env_selector_ok ctx_ready ''el_2''))) = None
   \<and> fst (click env_selector_ok (fst (snd (click env_selector_ok ctx_ready ''el_2''))) ''el_2'')
       = Inl (Error ''Element not found in snapshot: el_2'')
   \<and> fst (scroll env_scroll_ok ctx_ready [] 0) = Inr ''down''
   \<and> fst (fill env_fill_ok (fst (snd (scroll env_scroll_ok ctx_ready [] 0))) ''el_1'' ''hello'')
       = Inl (Error ''Element not found in snapshot: el_1'')
   \<and> fst (navigate example_lifecycle env_nav_ok ctx_ready ''https://shop.example/'')
       = Inr \<lparr>nav_url = ''https://shop.example/'', nav_snapshot = ''el_0 [button] Accept'',
               nav_elementCount = 1\<rparr>
   \<and> find_element (fst (snd (navigate example_lifecycle env_nav_ok ctx_ready
         ''https://shop.example/''))) ''el_0''
       = Some \<lparr>el_id = ''el_0'', el_selector = ''#accept'', el_role = ''button'',
               el_name = ''Accept'', el_href = None\<rparr>"
proof -
  note t1 = snapshot_invalidation [of env_selector_ok ctx_ready "''el_2''" env_selector_ok
      "''el_2''" env_fill_ok "''hello''" env_link env_scroll_ok "[]" 0 example_lifecycle
      env_nav_ok "''https://shop.example/''" env_fill_ok "''hello''"]
  note t2 = snapshot_invalidation [of env_selector_ok ctx_ready "''el_2''" env_selector_ok
      "''el_1''" env_fill_ok "''hello''" env_link env_scroll_ok "[]" 0 example_lifecycle
      env_nav_ok "''https://shop.example/''" env_fill_ok "''hello''"]
  from t1 click_go_succeeds
  have c: "lastSnapshot (fst (snd (click env_selector_ok ctx_ready ''el_2''))) = None
     \<and> click env_selector_ok (fst (snd (click env_selector_ok ctx_ready ''el_2''))) ''el_2''
         = (Inl (not_found ''el_2''), fst (snd (click env_selector_ok ctx_ready ''el_2'')), [])"
    by blast
  from t2 scroll_down_succeeds
  have s: "fill env_fill_ok (fst (snd (scroll env_scroll_ok ctx_ready [] 0))) ''el_1'' ''hello''
         = (Inl (not_found ''el_1''), fst (snd (scroll env_scroll_ok ctx_ready [] 0)), [])"
    by blast
  have nn: "nav_nodes env_nav_ok = Inr consent_nodes"
    by (simp add: env_nav_ok_def env_tunnel_then_ok_def)
  have ne: "consent_nodes \<noteq> []" by (simp add: consent_nodes_def)
  from t1 navigate_shop_succeeds obtain nodes where
    a: "nav_nodes env_nav_ok = Inr nodes" and
    b: "nodes \<noteq> [] \<longrightarrow>
          find_element (fst (snd (navigate example_lifecycle env_nav_ok ctx_ready
             ''https://shop.example/''))) ''el_0''
           = Some \<lparr>el_id = ''el_0'', el_selector = node_selector (nodes ! 0),
                   el_role = node_role (nodes ! 0), el_name = node_name (nodes ! 0),
                   el_href = node_href (nodes ! 0)\<rparr>"
    by blast
  have "nodes = consent_nodes" using a nn by simp
  then have n: "find_element (fst (snd (navigate example_lifecycle env_nav_ok ctx_ready
         ''https://shop.example/''))) ''el_0''
       = Some \<lparr>el_id = ''el_0'', el_selector = node_selector (consent_nodes ! 0),
               el_role = node_role (consent_nodes ! 0), el_name = node_name (consent_nodes ! 0),
               el_href = node_href (consent_nodes ! 0)\<rparr>"
    using b ne by simp
  show ?thesis
    using c s n click_go_succeeds scroll_down_succeeds navigate_shop_succeeds
    by (simp add: not_found_def consent_nodes_def)
qed

text \<open>
  The claim as it is written fails.  After a \<open>fill\<close> the identifiers of the snapshot still
  resolve: a \<open>click\<close> on \<open>el_2\<close> succeeds.  After a \<open>navigate\<close> the identifier \<open>el_0\<close>, which
  named a link of the old page, resolves to the first element of the new page, and the click
  goes to that element's selector.
\<close>

theorem stale_identifier_resolves_after_fill_and_navigate:
  "fst (fill env_fill_ok ctx_ready ''el_1'' ''hello'')
     = Inr \<lparr>fill_uid = ''el_1'', textLength = 5\<rparr>
   \<and> fst (click env_selector_ok (fst (snd (fill env_fill_ok ctx_ready ''el_1'' ''hello''))) ''el_2'')
     = Inr \<lparr>clicked = ''el_2'', newTabOpened = False, click_url = ''https://example.com/#done''\<rparr>
   \<and> find_element ctx_ready ''el_0''
     = Some \<lparr>el_id = ''el_0'', el_selector = ''a'', el_role = ''a'',
             el_name = ''More information...'',
             el_href = Some ''https://www.iana.org/domains/example''\<rparr>
   \<and> fst (navigate example_lifecycle env_nav_ok ctx_ready ''https://shop.example/'')
     = Inr \<lparr>nav_url = ''https://shop.example/'', nav_snapshot = ''el_0 [button] Accept'',
             nav_elementCount = 1\<rparr>
   \<and> snd (snd (click env_selector_ok
         (fst (snd (navigate example_lifecycle env_nav_ok ctx_ready ''https://shop.example/'')))
         ''el_0''))
     = [ScrollIntoView ''#accept'', LocatorClick ''#accept'']"
  by code_simp


subsection \<open>navigate\<close>

text \<open>
  Claim C7.  \<open>navigate\<close> first opens a page when the context has none; \<open>ctx1\<close> is the context
  and \<open>ev0\<close> the calls after that step.  With a page:

  \<^item> when the first navigation call fails with an error whose message holds the tunnel
    failure marker and a proxy manager is attached, the rotation runs once: the failure of
    the launched proxy is reported to the pool (when a proxy was launched), the browser is
    closed and initialised again, and the navigation is called a second time on the page of
    the new context; the outcome of that second call is the outcome of the navigation, with
    no further retry;
  \<^item> an error thrown by the rotation itself (by the report, by closing or by initialising)
    is thrown on, without a second navigation call;
  \<^item> when the first failure does not hold the marker, or no proxy manager is attached, that
    error is thrown after the single navigation call, with the context as it was;
  \<^item> once a navigation call has succeeded and the snapshot script returns, \<open>navigate\<close>
    succeeds: the current URL is the URL of the page, it has joined the visited set unless
    empty, and the snapshot of the context is a fresh one, holding the first 120 elements of
    the page numbered from \<open>el_0\<close>;
  \<^item> in every case, the log holds at most two navigation calls.
\<close>

theorem navigate_rotates_and_retries_once:
  "(\<forall>e c. \<not> page ctx \<and> ctx_init lc ctx = (Some e, c) \<longrightarrow>
        navigate lc env ctx u = (Inl e, c, [CallInit]))
   \<and> (\<forall>ctx1 ev0.
        (page ctx \<and> ctx1 = ctx \<and> ev0 = []
           \<or> \<not> page ctx \<and> ctx_init lc ctx = (None, ctx1) \<and> ev0 = [CallInit]) \<longrightarrow>
          (\<not> page ctx1 \<longrightarrow>
             navigate lc env ctx u = (Inl (TypeError ''goto''), ctx1, ev0))
        \<and> (page ctx1 \<and> goto_first env = None \<longrightarrow>
             navigate lc env ctx u = navigate_finish env ctx1 (ev0 @ [Goto u]))
        \<and> (\<forall>navErr.
              page ctx1 \<and> goto_first env = Some navErr
            \<and> (\<not> js_includes (message navErr) ''ERR_TUNNEL_CONNECTION_FAILED''
                \<or> proxyManager ctx1 = None) \<longrightarrow>
              navigate lc env ctx u = (Inl navErr, ctx1, ev0 @ [Goto u]))
        \<and> (\<forall>navErr pm r e.
              page ctx1 \<and> goto_first env = Some navErr
            \<and> js_includes (message navErr) ''ERR_TUNNEL_CONNECTION_FAILED''
            \<and> proxyManager ctx1 = Some pm \<and> proxyLaunchRaw ctx1 = Some r \<and> r \<noteq> []
            \<and> reportFailure pm r (nav_now env) = Inl e \<longrightarrow>
              navigate lc env ctx u = (Inl e, ctx1, ev0 @ [Goto u, ReportFailure r]))
        \<and> (\<forall>navErr pm ctxF evF.
              page ctx1 \<and> goto_first env = Some navErr
            \<and> js_includes (message navErr) ''ERR_TUNNEL_CONNECTION_FAILED''
            \<and> proxyManager ctx1 = Some pm
            \<and> ((\<exists>r b pm'. proxyLaunchRaw ctx1 = Some r \<and> r \<noteq> []
                    \<and> reportFailure pm r (nav_now env) = Inr (b, pm')
                    \<and> ctxF = ctx1\<lparr>proxyManager := Some pm'\<rparr> \<and> evF = [ReportFailure r])
                \<or> ((proxyLaunchRaw ctx1 = None \<or> proxyLaunchRaw ctx1 = Some [])
                    \<and> ctxF = ctx1 \<and> evF = [])) \<longrightarrow>
              (\<forall>e ctxC. ctx_close lc ctxF = (Some e, ctxC) \<longrightarrow>
                 navigate lc env ctx u = (Inl e, ctxC, ev0 @ [Goto u] @ evF @ [CallClose]))
            \<and> (\<forall>ctxC e ctx2. ctx_close lc ctxF = (None, ctxC) \<and> ctx_init lc ctxC = (Some e, ctx2) \<longrightarrow>
                 navigate lc env ctx u
                   = (Inl e, ctx2, ev0 @ [Goto u] @ evF @ [CallClose, CallInit]))
            \<and> (\<forall>ctxC ctx2. ctx_close lc ctxF = (None, ctxC) \<and> ctx_init lc ctxC = (None, ctx2) \<longrightarrow>
                 (\<not> page ctx2 \<longrightarrow>
                    navigate lc env ctx u
                      = (Inl (TypeError ''goto''), ctx2,
                         ev0 @ [Goto u] @ evF @ [CallClose, CallInit]))
               \<and> (page ctx2 \<and> goto_retry env = None \<longrightarrow>
                    navigate lc env ctx u
                      = navigate_finish env ctx2
                          (ev0 @ [Goto u] @ evF @ [CallClose, CallInit, Goto u]))
               \<and> (\<forall>e2. page ctx2 \<and> goto_retry env = Some e2 \<longrightarrow>
                    navigate lc env ctx u
                      = (Inl e2, ctx2, ev0 @ [Goto u] @ evF @ [CallClose, CallInit, Goto u])))))
   \<and> (\<forall>c evs nodes. nav_nodes env = Inr nodes \<longrightarrow>
        (\<exists>r c' snap. navigate_finish env c evs = (Inr r, c', evs @ [TakeSnapshot])
           \<and> nav_url r = nav_page_url env
           \<and> nav_elementCount r = min 120 (length nodes)
           \<and> currentUrl c' = nav_page_url env
           \<and> visitedUrls c' = (if nav_page_url env = [] then visitedUrls c
                                else insert (nav_page_url env) (visitedUrls c))
           \<and> lastSnapshot c' = Some snap
           \<and> elements snap
               = map (\<lambda>i. \<lparr>el_id = ''el_'' @ show_nat i, el_selector = node_selector (nodes ! i),
                            el_role = node_role (nodes ! i), el_name = node_name (nodes ! i),
                            el_href = node_href (nodes ! i)\<rparr>)
                   [0..<min 120 (length nodes)]))
   \<and> (\<forall>c evs e. nav_nodes env = Inl e \<longrightarrow> fst (navigate_finish env c evs) = Inl e)
   \<and> length (filter is_goto (snd (snd (navigate lc env ctx u)))) \<le> 2"
proof -
  have init: "\<forall>e c. \<not> page ctx \<and> ctx_init lc ctx = (Some e, c) \<longrightarrow>
        navigate lc env ctx u = (Inl e, c, [CallInit])"
    using navigate_init_throws by blast
  have main: "\<forall>ctx1 ev0.
        (page ctx \<and> ctx1 = ctx \<and> ev0 = []
           \<or> \<not> page ctx \<and> ctx_init lc ctx = (None, ctx1) \<and> ev0 = [CallInit]) \<longrightarrow>
          (\<not> page ctx1 \<longrightarrow>
             navigate lc env ctx u = (Inl (TypeError ''goto''), ctx1, ev0))
        \<and> (page ctx1 \<and> goto_first env = None \<longrightarrow>
             navigate lc env ctx u = navigate_finish env ctx1 (ev0 @ [Goto u]))
        \<and> (\<forall>navErr.
              page ctx1 \<and> goto_first env = Some navErr
            \<and> (\<not> js_includes (message navErr) ''ERR_TUNNEL_CONNECTION_FAILED''
                \<or> proxyManager ctx1 = None) \<longrightarrow>
              navigate lc env ctx u = (Inl navErr, ctx1, ev0 @ [Goto u]))
        \<and> (\<forall>navErr pm r e.
              page ctx1 \<and> goto_first env = Some navErr
            \<and> js_includes (message navErr) ''ERR_TUNNEL_CONNECTION_FAILED''
            \<and> proxyManager ctx1 = Some pm \<and> proxyLaunchRaw ctx1 = Some r \<and> r \<noteq> []
            \<and> reportFailure pm r (nav_now env) = Inl e \<longrightarrow>
              navigate lc env ctx u = (Inl e, ctx1, ev0 @ [Goto u, ReportFailure r]))
        \<and> (\<forall>navErr pm ctxF evF.
              page ctx1 \<and> goto_first env = Some navErr
            \<and> js_includes (message navErr) ''ERR_TUNNEL_CONNECTION_FAILED''
            \<and> proxyManager ctx1 = Some pm
            \<and> ((\<exists>r b pm'. proxyLaunchRaw ctx1 = Some r \<and> r \<noteq> []
                    \<and> reportFailure pm r (nav_now env) = Inr (b, pm')
                    \<and> ctxF = ctx1\<lparr>proxyManager := Some pm'\<rparr> \<and> evF = [ReportFailure r])
                \<or> ((proxyLaunchRaw ctx1 = None \<or> proxyLaunchRaw ctx1 = Some [])
                    \<and> ctxF = ctx1 \<and> evF = [])) \<longrightarrow>
              (\<forall>e ctxC. ctx_close lc ctxF = (Some e, ctxC) \<longrightarrow>
                 navigate lc env ctx u = (Inl e, ctxC, ev0 @ [Goto u] @ evF @ [CallClose]))
            \<and> (\<forall>ctxC e ctx2. ctx_close lc ctxF = (None, ctxC) \<and> ctx_init lc ctxC = (Some e, ctx2) \<longrightarrow>
                 navigate lc env ctx u
                   = (Inl e, ctx2, ev0 @ [Goto u] @ evF @ [CallClose, CallInit]))
            \<and> (\<forall>ctxC ctx2. ctx_close lc ctxF = (None, ctxC) \<and> ctx_init lc ctxC = (None, ctx2) \<longrightarrow>
                 (\<not> page ctx2 \<longrightarrow>
                    navigate lc env ctx u
                      = (Inl (TypeError ''goto''), ctx2,
                         ev0 @ [Goto u] @ evF @ [CallClose, CallInit]))
               \<and> (page ctx2 \<and> goto_retry env = None \<longrightarrow>
                    navigate lc env ctx u
                      = navigate_finish env ctx2
                          (ev0 @ [Goto u] @ evF @ [CallClose, CallInit, Goto u]))
               \<and> (\<forall>e2. page ctx2 \<and> goto_retry env = Some e2 \<longrightarrow>
                    navigate lc env ctx u
                      = (Inl e2, ctx2, ev0 @ [Goto u] @ evF @ [CallClose, CallInit, Goto u]))))"
  proof (intro allI impI)
    fix ctx1 ev0
    assume st: "page ctx \<and> ctx1 = ctx \<and> ev0 = []
           \<or> \<not> page ctx \<and> ctx_init lc ctx = (None, ctx1) \<and> ev0 = [CallInit]"
    note nv = navigate_started [OF st, of env u]
    have 1: "\<not> page ctx1 \<longrightarrow>
             navigate lc env ctx u = (Inl (TypeError ''goto''), ctx1, ev0)"
      using nv by (simp add: navigate_attempt_no_page)
    have 2: "page ctx1 \<and> goto_first env = None \<longrightarrow>
             navigate lc env ctx u = navigate_finish env ctx1 (ev0 @ [Goto u])"
      using nv by (simp add: navigate_attempt_first_ok)
    have 3: "\<forall>navErr.
              page ctx1 \<and> goto_first env = Some navErr
            \<and> (\<not> js_includes (message navErr) ''ERR_TUNNEL_CONNECTION_FAILED''
                \<or> proxyManager ctx1 = None) \<longrightarrow>
              navigate lc env ctx u = (Inl navErr, ctx1, ev0 @ [Goto u])"
    proof (intro allI impI)
      fix navErr
      assume h: "page ctx1 \<and> goto_first env = Some navErr
            \<and> (\<not> js_includes (message navErr) ''ERR_TUNNEL_CONNECTION_FAILED''
                \<or> proxyManager ctx1 = None)"
      then have "navigate_attempt lc env ctx1 u = (Some navErr, ctx1, [Goto u])"
        using navigate_attempt_other_error [of ctx1 env navErr lc u] by blast
      then show "navigate lc env ctx u = (Inl navErr, ctx1, ev0 @ [Goto u])"
        using nv by simp
    qed
    have 4: "\<forall>navErr pm r e.
              page ctx1 \<and> goto_first env = Some navErr
            \<and> js_includes (message navErr) ''ERR_TUNNEL_CONNECTION_FAILED''
            \<and> proxyManager ctx1 = Some pm \<and> proxyLaunchRaw ctx1 = Some r \<and> r \<noteq> []
            \<and> reportFailure pm r (nav_now env) = Inl e \<longrightarrow>
              navigate lc env ctx u = (Inl e, ctx1, ev0 @ [Goto u, ReportFailure r])"
    proof (intro allI impI)
      fix navErr pm r e
      assume h: "page ctx1 \<and> goto_first env = Some navErr
            \<and> js_includes (message navErr) ''ERR_TUNNEL_CONNECTION_FAILED''
            \<and> proxyManager ctx1 = Some pm \<and> proxyLaunchRaw ctx1 = Some r \<and> r \<noteq> []
            \<and> reportFailure pm r (nav_now env) = Inl e"
      then have rb: "rotateBrowser lc (nav_now env) ctx1 = (Inl e, ctx1, [ReportFailure r])"
        using rotateBrowser_report_throws [of ctx1 pm r "nav_now env" e lc] by blast
      have "navigate_attempt lc env ctx1 u = (Some e, ctx1, [Goto u] @ [ReportFailure r])"
        using h rb navigate_attempt_tunnel [of ctx1 env navErr lc u] by simp
      then show "navigate lc env ctx u = (Inl e, ctx1, ev0 @ [Goto u, ReportFailure r])"
        using nv by simp
    qed
    have 5: "\<forall>navErr pm ctxF evF.
              page ctx1 \<and> goto_first env = Some navErr
            \<and> js_includes (message navErr) ''ERR_TUNNEL_CONNECTION_FAILED''
            \<and> proxyManager ctx1 = Some pm
            \<and> ((\<exists>r b pm'. proxyLaunchRaw ctx1 = Some r \<and> r \<noteq> []
                    \<and> reportFailure pm r (nav_now env) = Inr (b, pm')
                    \<and> ctxF = ctx1\<lparr>proxyManager := Some pm'\<rparr> \<and> evF = [ReportFailure r])
                \<or> ((proxyLaunchRaw ctx1 = None \<or> proxyLaunchRaw ctx1 = Some [])
                    \<and> ctxF = ctx1 \<and> evF = [])) \<longrightarrow>
              (\<forall>e ctxC. ctx_close lc ctxF = (Some e, ctxC) \<longrightarrow>
                 navigate lc env ctx u = (Inl e, ctxC, ev0 @ [Goto u] @ evF @ [CallClose]))
            \<and> (\<forall>ctxC e ctx2. ctx_close lc ctxF = (None, ctxC) \<and> ctx_init lc ctxC = (Some e, ctx2) \<longrightarrow>
                 navigate lc env ctx u
                   = (Inl e, ctx2, ev0 @ [Goto u] @ evF @ [CallClose, CallInit]))
            \<and> (\<forall>ctxC ctx2. ctx_close lc ctxF = (None, ctxC) \<and> ctx_init lc ctxC = (None, ctx2) \<longrightarrow>
                 (\<not> page ctx2 \<longrightarrow>
                    navigate lc env ctx u
                      = (Inl (TypeError ''goto''), ctx2,
                         ev0 @ [Goto u] @ evF @ [CallClose, CallInit]))
               \<and> (page ctx2 \<and> goto_retry env = None \<longrightarrow>
                    navigate lc env ctx u
                      = navigate_finish env ctx2
                          (ev0 @ [Goto u] @ evF @ [CallClose, CallInit, Goto u]))
               \<and> (\<forall>e2. page ctx2 \<and> goto_retry env = Some e2 \<longrightarrow>
                    navigate lc env ctx u
                      = (Inl e2, ctx2, ev0 @ [Goto u] @ evF @ [CallClose, CallInit, Goto u])))"
    proof (intro allI impI)
      fix navErr pm ctxF evF
      assume h: "page ctx1 \<and> goto_first env = Some navErr
            \<and> js_includes (message navErr) ''ERR_TUNNEL_CONNECTION_FAILED''
            \<and> proxyManager ctx1 = Some pm
            \<and> ((\<exists>r b pm'. proxyLaunchRaw ctx1 = Some r \<and> r \<noteq> []
                    \<and> reportFailure pm r (nav_now env) = Inr (b, pm')
                    \<and> ctxF = ctx1\<lparr>proxyManager := Some pm'\<rparr> \<and> evF = [ReportFailure r])
                \<or> ((proxyLaunchRaw ctx1 = None \<or> proxyLaunchRaw ctx1 = Some [])
                    \<and> ctxF = ctx1 \<and> evF = []))"
      then have h1: "page ctx1" "goto_first env = Some navErr"
        "js_includes (message navErr) ''ERR_TUNNEL_CONNECTION_FAILED''"
        "proxyManager ctx1 = Some pm"
        and h2: "(\<exists>r b pm'. proxyLaunchRaw ctx1 = Some r \<and> r \<noteq> []
                    \<and> reportFailure pm r (nav_now env) = Inr (b, pm')
                    \<and> ctxF = ctx1\<lparr>proxyManager := Some pm'\<rparr> \<and> evF = [ReportFailure r])
                \<or> ((proxyLaunchRaw ctx1 = None \<or> proxyLaunchRaw ctx1 = Some [])
                    \<and> ctxF = ctx1 \<and> evF = [])"
        by blast+
      note rb = rotateBrowser_after_report [OF h1(4) h2, of lc]
      note na = navigate_attempt_tunnel [OF h1(1) h1(2) h1(3), of lc u]
      have a: "\<forall>e ctxC. ctx_close lc ctxF = (Some e, ctxC) \<longrightarrow>
                 navigate lc env ctx u = (Inl e, ctxC, ev0 @ [Goto u] @ evF @ [CallClose])"
      proof (intro allI impI)
        fix e ctxC assume "ctx_close lc ctxF = (Some e, ctxC)"
        then have "rotateBrowser lc (nav_now env) ctx1 = (Inl e, ctxC, evF @ [CallClose])"
          using rb by simp
        then have "navigate_attempt lc env ctx1 u = (Some e, ctxC, [Goto u] @ evF @ [CallClose])"
          using na by simp
        then show "navigate lc env ctx u = (Inl e, ctxC, ev0 @ [Goto u] @ evF @ [CallClose])"
          using nv by simp
      qed
      have b: "\<forall>ctxC e ctx2. ctx_close lc ctxF = (None, ctxC) \<and> ctx_init lc ctxC = (Some e, ctx2) \<longrightarrow>
                 navigate lc env ctx u
                   = (Inl e, ctx2, ev0 @ [Goto u] @ evF @ [CallClose, CallInit])"
      proof (intro allI impI)
        fix ctxC e ctx2
        assume "ctx_close lc ctxF = (None, ctxC) \<and> ctx_init lc ctxC = (Some e, ctx2)"
        then have "rotateBrowser lc (nav_now env) ctx1
            = (Inl e, ctx2, evF @ [CallClose, CallInit])"
          using rb by simp
        then have "navigate_attempt lc env ctx1 u
            = (Some e, ctx2, [Goto u] @ evF @ [CallClose, CallInit])"
          using na by simp
        then show "navigate lc env ctx u
                   = (Inl e, ctx2, ev0 @ [Goto u] @ evF @ [CallClose, CallInit])"
          using nv by simp
      qed
      have c: "\<forall>ctxC ctx2. ctx_close lc ctxF = (None, ctxC) \<and> ctx_init lc ctxC = (None, ctx2) \<longrightarrow>
                 (\<not> page ctx2 \<longrightarrow>
                    navigate lc env ctx u
                      = (Inl (TypeError ''goto''), ctx2,
                         ev0 @ [Goto u] @ evF @ [CallClose, CallInit]))
               \<and> (page ctx2 \<and> goto_retry env = None \<longrightarrow>
                    navigate lc env ctx u
                      = navigate_finish env ctx2
                          (ev0 @ [Goto u] @ evF @ [CallClose, CallInit, Goto u]))
               \<and> (\<forall>e2. page ctx2 \<and> goto_retry env = Some e2 \<longrightarrow>
                    navigate lc env ctx u
                      = (Inl e2, ctx2, ev0 @ [Goto u] @ evF @ [CallClose, CallInit, Goto u]))"
      proof (intro allI impI)
        fix ctxC ctx2
        assume "ctx_close lc ctxF = (None, ctxC) \<and> ctx_init lc ctxC = (None, ctx2)"
        then have "rotateBrowser lc (nav_now env) ctx1
            = (Inr True, ctx2, evF @ [CallClose, CallInit])"
          using rb by simp
        then have at: "navigate_attempt lc env ctx1 u
            = (case attemptGoto ctx2 u (goto_retry env) of
                 (res, ev2) \<Rightarrow> (res, ctx2, [Goto u] @ (evF @ [CallClose, CallInit]) @ ev2))"
          using na by simp
        have c1: "\<not> page ctx2 \<longrightarrow>
                    navigate lc env ctx u
                      = (Inl (TypeError ''goto''), ctx2,
                         ev0 @ [Goto u] @ evF @ [CallClose, CallInit])"
          using nv at by (simp add: attemptGoto_no_page)
        have c2: "page ctx2 \<and> goto_retry env = None \<longrightarrow>
                    navigate lc env ctx u
                      = navigate_finish env ctx2
                          (ev0 @ [Goto u] @ evF @ [CallClose, CallInit, Goto u])"
          using nv at by (simp add: attemptGoto_page)
        have c3: "\<forall>e2. page ctx2 \<and> goto_retry env = Some e2 \<longrightarrow>
                    navigate lc env ctx u
                      = (Inl e2, ctx2, ev0 @ [Goto u] @ evF @ [CallClose, CallInit, Goto u])"
          using nv at by (simp add: attemptGoto_page)
        show "(\<not> page ctx2 \<longrightarrow>
                    navigate lc env ctx u
                      = (Inl (TypeError ''goto''), ctx2,
                         ev0 @ [Goto u] @ evF @ [CallClose, CallInit]))
               \<and> (page ctx2 \<and> goto_retry env = None \<longrightarrow>
                    navigate lc env ctx u
                      = navigate_finish env ctx2
                          (ev0 @ [Goto u] @ evF @ [CallClose, CallInit, Goto u]))
               \<and> (\<forall>e2. page ctx2 \<and> goto_retry env = Some e2 \<longrightarrow>
                    navigate lc env ctx u
                      = (Inl e2, ctx2, ev0 @ [Goto u] @ evF @ [CallClose, CallInit, Goto u]))"
          using c1 c2 c3 by (intro conjI)
      qed
      show "(\<forall>e ctxC. ctx_close lc ctxF = (Some e, ctxC) \<longrightarrow>
                 navigate lc env ctx u = (Inl e, ctxC, ev0 @ [Goto u] @ evF @ [CallClose]))
            \<and> (\<forall>ctxC e ctx2. ctx_close lc ctxF = (None, ctxC) \<and> ctx_init lc ctxC = (Some e, ctx2) \<longrightarrow>
                 navigate lc env ctx u
                   = (Inl e, ctx2, ev0 @ [Goto u] @ evF @ [CallClose, CallInit]))
            \<and> (\<forall>ctxC ctx2. ctx_close lc ctxF = (None, ctxC) \<and> ctx_init lc ctxC = (None, ctx2) \<longrightarrow>
                 (\<not> page ctx2 \<longrightarrow>
                    navigate lc env ctx u
                      = (Inl (TypeError ''goto''), ctx2,
                         ev0 @ [Goto u] @ evF @ [CallClose, CallInit]))
               \<and> (page ctx2 \<and> goto_retry env = None \<longrightarrow>
                    navigate lc env ctx u
                      = navigate_finish env ctx2
                          (ev0 @ [Goto u] @ evF @ [CallClose, CallInit, Goto u]))
               \<and> (\<forall>e2. page ctx2 \<and> goto_retry env = Some e2 \<longrightarrow>
                    navigate lc env ctx u
                      = (Inl e2, ctx2, ev0 @ [Goto u] @ evF @ [CallClose, CallInit, Goto u])))"
        using a b c by (intro conjI)
    qed
    show "(\<not> page ctx1 \<longrightarrow>
             navigate lc env ctx u = (Inl (TypeError ''goto''), ctx1, ev0))
        \<and> (page ctx1 \<and> goto_first env = None \<longrightarrow>
             navigate lc env ctx u = navigate_finish env ctx1 (ev0 @ [Goto u]))
        \<and> (\<forall>navErr.
              page ctx1 \<and> goto_first env = Some navErr
            \<and> (\<not> js_includes (message navErr) ''ERR_TUNNEL_CONNECTION_FAILED''
                \<or> proxyManager ctx1 = None) \<longrightarrow>
              navigate lc env ctx u = (Inl navErr, ctx1, ev0 @ [Goto u]))
        \<and> (\<forall>navErr pm r e.
              page ctx1 \<and> goto_first env = Some navErr
            \<and> js_includes (message navErr) ''ERR_TUNNEL_CONNECTION_FAILED''
            \<and> proxyManager ctx1 = Some pm \<and> proxyLaunchRaw ctx1 = Some r \<and> r \<noteq> []
            \<and> reportFailure pm r (nav_now env) = Inl e \<longrightarrow>
              navigate lc env ctx u = (Inl e, ctx1, ev0 @ [Goto u, ReportFailure r]))
        \<and> (\<forall>navErr pm ctxF evF.
              page ctx1 \<and> goto_first env = Some navErr
            \<and> js_includes (message navErr) ''ERR_TUNNEL_CONNECTION_FAILED''
            \<and> proxyManager ctx1 = Some pm
            \<and> ((\<exists>r b pm'. proxyLaunchRaw ctx1 = Some r \<and> r \<noteq> []
                    \<and> reportFailure pm r (nav_now env) = Inr (b, pm')
                    \<and> ctxF = ctx1\<lparr>proxyManager := Some pm'\<rparr> \<and> evF = [ReportFailure r])
                \<or> ((proxyLaunchRaw ctx1 = None \<or> proxyLaunchRaw ctx1 = Some [])
                    \<and> ctxF = ctx1 \<and> evF = [])) \<longrightarrow>
              (\<forall>e ctxC. ctx_close lc ctxF = (Some e, ctxC) \<longrightarrow>
                 navigate lc env ctx u = (Inl e, ctxC, ev0 @ [Goto u] @ evF @ [CallClose]))
            \<and> (\<forall>ctxC e ctx2. ctx_close lc ctxF = (None, ctxC) \<and> ctx_init lc ctxC = (Some e, ctx2) \<longrightarrow>
                 navigate lc env ctx u
                   = (Inl e, ctx2, ev0 @ [Goto u] @ evF @ [CallClose, CallInit]))
            \<and> (\<forall>ctxC ctx2. ctx_close lc ctxF = (None, ctxC) \<and> ctx_init lc ctxC = (None, ctx2) \<longrightarrow>
                 (\<not> page ctx2 \<longrightarrow>
                    navigate lc env ctx u
                      = (Inl (TypeError ''goto''), ctx2,
                         ev0 @ [Goto u] @ evF @ [CallClose, CallInit]))
               \<and> (page ctx2 \<and> goto_retry env = None \<longrightarrow>
                    navigate lc env ctx u
                      = navigate_finish env ctx2
                          (ev0 @ [Goto u] @ evF @ [CallClose, CallInit, Goto u]))
               \<and> (\<forall>e2. page ctx2 \<and> goto_retry env = Some e2 \<longrightarrow>
                    navigate lc env ctx u
                      = (Inl e2, ctx2, ev0 @ [Goto u] @ evF @ [CallClose, CallInit, Goto u]))))"
      using 1 2 3 4 5 by (intro conjI)
  qed
  have fin: "\<forall>c evs nodes. nav_nodes env = Inr nodes \<longrightarrow>
        (\<exists>r c' snap. navigate_finish env c evs = (Inr r, c', evs @ [TakeSnapshot])
           \<and> nav_url r = nav_page_url env
           \<and> nav_elementCount r = min 120 (length nodes)
           \<and> currentUrl c' = nav_page_url env
           \<and> visitedUrls c' = (if nav_page_url env = [] then visitedUrls c
                                else insert (nav_page_url env) (visitedUrls c))
           \<and> lastSnapshot c' = Some snap
           \<and> elements snap
               = map (\<lambda>i. \<lparr>el_id = ''el_'' @ show_nat i, el_selector = node_selector (nodes ! i),
                            el_role = node_role (nodes ! i), el_name = node_name (nodes ! i),
                            el_href = node_href (nodes ! i)\<rparr>)
                   [0..<min 120 (length nodes)])"
    using navigate_finish_result by blast
  have thr: "\<forall>c evs e. nav_nodes env = Inl e \<longrightarrow> fst (navigate_finish env c evs) = Inl e"
    using navigate_finish_snapshot_throws by blast
  have cnt: "length (filter is_goto (snd (snd (navigate lc env ctx u)))) \<le> 2"
  proof (cases "page ctx")
    case True
    note nv = navigate_started [of ctx ctx "[]" lc env u]
    obtain r c2 ev where a: "navigate_attempt lc env ctx u = (r, c2, ev)" by (metis prod_cases3)
    have g: "length (filter is_goto ev) \<le> 2"
      using navigate_attempt_gotos [of lc env ctx u] a by simp
    show ?thesis using nv True a g by (cases r) (simp_all add: navigate_finish_events)
  next
    case False
    obtain e0 ctx1 where i: "ctx_init lc ctx = (e0, ctx1)" by (cases "ctx_init lc ctx")
    show ?thesis
    proof (cases e0)
      case (Some e)
      then show ?thesis using navigate_init_throws [OF False, of lc e ctx1 env u] i by simp
    next
      case None
      note nv = navigate_started [of ctx ctx1 "[CallInit]" lc env u]
      obtain r c2 ev where a: "navigate_attempt lc env ctx1 u = (r, c2, ev)"
        by (metis prod_cases3)
      have g: "length (filter is_goto ev) \<le> 2"
        using navigate_attempt_gotos [of lc env ctx1 u] a by simp
      show ?thesis using nv False i None a g by (cases r) (simp_all add: navigate_finish_events)
    qed
  qed
  show ?thesis using init main fin thr cnt by (intro conjI)
qed

lemma example_report:
  "\<exists>pm'. reportFailure pool_two_failures ''http://a.example:8080'' 3000 = Inr (True, pm')"
  by (simp add: reportFailure_def Let_def pool_two_failures_def inherited_property_def
      FAIL_THRESHOLD_def FAIL_WINDOW_MS_def BAN_DURATION_MS_def)

lemma example_marker:
  "js_includes (message (Error ''page.goto: net::ERR_TUNNEL_CONNECTION_FAILED at https://shop.example/''))
     ''ERR_TUNNEL_CONNECTION_FAILED''"
  by code_simp

lemma example_no_marker:
  "\<not> js_includes (message (Error ''page.goto: Timeout 30000ms exceeded.''))
     ''ERR_TUNNEL_CONNECTION_FAILED''"
  by code_simp

lemma consent_elements:
  "map (\<lambda>i. \<lparr>el_id = ''el_'' @ show_nat i, el_selector = node_selector (consent_nodes ! i),
               el_role = node_role (consent_nodes ! i), el_name = node_name (consent_nodes ! i),
               el_href = node_href (consent_nodes ! i)\<rparr>)
     [0..<min 120 (length consent_nodes)]
   = [\<lparr>el_id = ''el_0'', el_selector = ''#accept'', el_role = ''button'', el_name = ''Accept'',
       el_href = None\<rparr>]"
  by (simp add: consent_nodes_def show_nat_0)

theorem navigate_rotates_and_retries_once_witness:
  "page ctx_ready \<and> \<not> page ctx_closed
   \<and> snd (snd (navigate example_lifecycle env_tunnel_then_ok ctx_ready ''https://shop.example/''))
      = [Goto ''https://shop.example/'', ReportFailure ''http://a.example:8080'',
         CallClose, CallInit, Goto ''https://shop.example/'', TakeSnapshot]
   \<and> (\<exists>r snap.
         fst (navigate example_lifecycle env_tunnel_then_ok ctx_ready ''https://shop.example/'')
           = Inr r
       \<and> nav_url r = ''https://shop.example/'' \<and> nav_elementCount r = 1
       \<and> lastSnapshot (fst (snd (navigate example_lifecycle env_tunnel_then_ok ctx_ready
            ''https://shop.example/''))) = Some snap
       \<and> elements snap
           = [\<lparr>el_id = ''el_0'', el_selector = ''#accept'', el_role = ''button'',
               el_name = ''Accept'', el_href = None\<rparr>])
   \<and> currentUrl (fst (snd (navigate example_lifecycle env_tunnel_then_ok ctx_ready
        ''https://shop.example/''))) = ''https://shop.example/''
   \<and> ''https://shop.example/'' \<in> visitedUrls (fst (snd (navigate example_lifecycle
        env_tunnel_then_ok ctx_ready ''https://shop.example/'')))
   \<and> navigate example_lifecycle env_timeout ctx_ready ''https://shop.example/''
      = (Inl (Error ''page.goto: Timeout 30000ms exceeded.''), ctx_ready,
         [Goto ''https://shop.example/''])
   \<and> snd (snd (navigate example_lifecycle env_nav_ok ctx_closed ''https://shop.example/''))
      = [CallInit, Goto ''https://shop.example/'', TakeSnapshot]"
proof -
  define shop where "shop = ''https://shop.example/''"
  define a where "a = ''http://a.example:8080''"
  have p: "page ctx_ready" by (simp add: ctx_ready_def)
  have np: "\<not> page ctx_closed" by (simp add: ctx_closed_def)
  have pm: "proxyManager ctx_ready = Some pool_two_failures"
    and raw: "proxyLaunchRaw ctx_ready = Some a" "a \<noteq> []"
    by (simp_all add: ctx_ready_def a_def)
  have g1: "goto_first env_tunnel_then_ok
      = Some (Error ''page.goto: net::ERR_TUNNEL_CONNECTION_FAILED at https://shop.example/'')"
    and g1r: "goto_retry env_tunnel_then_ok = None"
    and now: "nav_now env_tunnel_then_ok = 3000"
    and url: "nav_page_url env_tunnel_then_ok = shop"
    and nn: "nav_nodes env_tunnel_then_ok = Inr consent_nodes"
    by (simp_all add: env_tunnel_then_ok_def shop_def)
  have g2: "goto_first env_timeout = Some (Error ''page.goto: Timeout 30000ms exceeded.'')"
    by (simp add: env_timeout_def)
  have g3: "goto_first env_nav_ok = None" "nav_nodes env_nav_ok = Inr consent_nodes"
    by (simp_all add: env_nav_ok_def env_tunnel_then_ok_def)
  obtain pm' where rf: "reportFailure pool_two_failures a 3000 = Inr (True, pm')"
    using example_report unfolding a_def by blast
  define ctxF where "ctxF = ctx_ready\<lparr>proxyManager := Some pm'\<rparr>"
  define ctxC where "ctxC = ctxF\<lparr>page := False, pages := 0\<rparr>"
  define ctx2 where "ctx2 = ctxC\<lparr>page := True, pages := 1, currentPageIndex := 0,
      currentUrl := ''about:blank''\<rparr>"
  define ctx1c where "ctx1c = ctx_closed\<lparr>page := True, pages := 1, currentPageIndex := 0,
      currentUrl := ''about:blank''\<rparr>"
  have cl: "ctx_close example_lifecycle ctxF = (None, ctxC) \<and> ctx_init example_lifecycle ctxC = (None, ctx2)"
    by (simp add: example_lifecycle_def ctxC_def ctx2_def)
  have p2: "page ctx2" by (simp add: ctx2_def)
  have ini: "ctx_init example_lifecycle ctx_closed = (None, ctx1c)" and p1c: "page ctx1c"
    by (simp_all add: example_lifecycle_def ctx1c_def)
  note t1 = navigate_rotates_and_retries_once [of ctx_ready example_lifecycle env_tunnel_then_ok shop]
  note t2 = navigate_rotates_and_retries_once [of ctx_ready example_lifecycle env_timeout shop]
  note t3 = navigate_rotates_and_retries_once [of ctx_closed example_lifecycle env_nav_ok shop]
  have st: "page ctx_ready \<and> ctx_ready = ctx_ready \<and> ([] :: event list) = []
      \<or> \<not> page ctx_ready \<and> ctx_init example_lifecycle ctx_ready = (None, ctx_ready)
        \<and> [] = [CallInit]"
    using p by simp
  have stc: "page ctx_closed \<and> ctx1c = ctx_closed \<and> [CallInit] = []
      \<or> \<not> page ctx_closed \<and> ctx_init example_lifecycle ctx_closed = (None, ctx1c)
        \<and> [CallInit] = [CallInit]"
    using np ini by simp
  txt \<open>The tunnel failure: one rotation, then the second call.\<close>
  note q1 = t1 [THEN conjunct2, THEN conjunct1, THEN spec, THEN spec, THEN mp, OF st]
  have h: "page ctx_ready
      \<and> goto_first env_tunnel_then_ok
          = Some (Error ''page.goto: net::ERR_TUNNEL_CONNECTION_FAILED at https://shop.example/'')
      \<and> js_includes (message (Error ''page.goto: net::ERR_TUNNEL_CONNECTION_FAILED at https://shop.example/''))
          ''ERR_TUNNEL_CONNECTION_FAILED''
      \<and> proxyManager ctx_ready = Some pool_two_failures
      \<and> ((\<exists>r b pm''. proxyLaunchRaw ctx_ready = Some r \<and> r \<noteq> []
              \<and> reportFailure pool_two_failures r (nav_now env_tunnel_then_ok) = Inr (b, pm'')
              \<and> ctxF = ctx_ready\<lparr>proxyManager := Some pm''\<rparr> \<and> [ReportFailure a] = [ReportFailure r])
          \<or> ((proxyLaunchRaw ctx_ready = None \<or> proxyLaunchRaw ctx_ready = Some [])
              \<and> ctxF = ctx_ready \<and> [ReportFailure a] = []))"
    using p g1 example_marker pm raw rf now ctxF_def by auto
  note q15 = q1 [THEN conjunct2, THEN conjunct2, THEN conjunct2, THEN conjunct2,
      THEN spec, THEN spec, THEN spec, THEN spec, THEN mp, OF h]
  note q153 = q15 [THEN conjunct2, THEN conjunct2, THEN spec, THEN spec, THEN mp, OF cl]
  have "page ctx2 \<and> goto_retry env_tunnel_then_ok = None" using p2 g1r by simp
  note n1 = q153 [THEN conjunct2, THEN conjunct1, THEN mp, OF this]
  note f1 = t1 [THEN conjunct2, THEN conjunct2, THEN conjunct1, THEN spec, THEN spec,
      THEN spec, THEN mp, OF nn]
  obtain r c' snap where fr:
    "navigate example_lifecycle env_tunnel_then_ok ctx_ready shop
       = (Inr r, c', ([] @ [Goto shop] @ [ReportFailure a] @ [CallClose, CallInit, Goto shop])
            @ [TakeSnapshot])"
    "nav_url r = shop" "nav_elementCount r = min 120 (length consent_nodes)"
    "currentUrl c' = shop"
    "visitedUrls c' = (if shop = [] then visitedUrls ctx2 else insert shop (visitedUrls ctx2))"
    "lastSnapshot c' = Some snap"
    "elements snap
       = map (\<lambda>i. \<lparr>el_id = ''el_'' @ show_nat i, el_selector = node_selector (consent_nodes ! i),
                    el_role = node_role (consent_nodes ! i), el_name = node_name (consent_nodes ! i),
                    el_href = node_href (consent_nodes ! i)\<rparr>)
           [0..<min 120 (length consent_nodes)]"
    using f1 [of ctx2 "[] @ [Goto shop] @ [ReportFailure a] @ [CallClose, CallInit, Goto shop]"]
    unfolding n1 [symmetric] url by blast
  have w1: "snd (snd (navigate example_lifecycle env_tunnel_then_ok ctx_ready shop))
      = [Goto shop, ReportFailure a, CallClose, CallInit, Goto shop, TakeSnapshot]"
    using fr(1) by simp
  have w2: "\<exists>r snap.
         fst (navigate example_lifecycle env_tunnel_then_ok ctx_ready shop) = Inr r
       \<and> nav_url r = shop \<and> nav_elementCount r = 1
       \<and> lastSnapshot (fst (snd (navigate example_lifecycle env_tunnel_then_ok ctx_ready shop)))
           = Some snap
       \<and> elements snap
           = [\<lparr>el_id = ''el_0'', el_selector = ''#accept'', el_role = ''button'',
               el_name = ''Accept'', el_href = None\<rparr>]"
    using fr consent_elements by (simp add: consent_nodes_def)
  have w3: "currentUrl (fst (snd (navigate example_lifecycle env_tunnel_then_ok ctx_ready shop)))
      = shop
    \<and> shop \<in> visitedUrls (fst (snd (navigate example_lifecycle env_tunnel_then_ok ctx_ready shop)))"
    using fr by (simp add: shop_def)
  txt \<open>Another failure is thrown after the single call.\<close>
  note q2 = t2 [THEN conjunct2, THEN conjunct1, THEN spec, THEN spec, THEN mp, OF st]
  have "page ctx_ready
      \<and> goto_first env_timeout = Some (Error ''page.goto: Timeout 30000ms exceeded.'')
      \<and> (\<not> js_includes (message (Error ''page.goto: Timeout 30000ms exceeded.''))
            ''ERR_TUNNEL_CONNECTION_FAILED''
          \<or> proxyManager ctx_ready = None)"
    using p g2 example_no_marker by simp
  note n2 = q2 [THEN conjunct2, THEN conjunct2, THEN conjunct1, THEN spec, THEN mp, OF this]
  txt \<open>Without a page, the context is initialised first.\<close>
  note q3 = t3 [THEN conjunct2, THEN conjunct1, THEN spec, THEN spec, THEN mp, OF stc]
  have "page ctx1c \<and> goto_first env_nav_ok = None" using p1c g3 by simp
  note n3 = q3 [THEN conjunct2, THEN conjunct1, THEN mp, OF this]
  note f3 = t3 [THEN conjunct2, THEN conjunct2, THEN conjunct1, THEN spec, THEN spec,
      THEN spec, THEN mp, OF g3(2)]
  have w5: "snd (snd (navigate example_lifecycle env_nav_ok ctx_closed shop))
      = [CallInit, Goto shop, TakeSnapshot]"
    using f3 [of ctx1c "[CallInit] @ [Goto shop]"] unfolding n3 [symmetric] by auto
  show ?thesis
    using p np w1 w2 w3 n2 w5 unfolding shop_def a_def by simp
qed


end
